theory Spec2Isabelle
  imports Main "HOL-Library.Word"
begin

section \<open>Bytes, slices and the struct module\<close>

text \<open>
  The script \<^verbatim>\<open>scripts/align_elf_segments.py\<close> loads a file into a \<^verbatim>\<open>bytearray\<close>,
  reads integer fields out of it with \<^verbatim>\<open>struct.unpack\<close> and patches fields with
  \<^verbatim>\<open>struct.pack_into\<close>. A byte is an 8-bit word, the image a list of bytes. Every
  integer the script computes is non-negative and unbounded, so offsets and field
  values are natural numbers. Python's two exceptions that the script can raise and
  never catches are values of \<open>exn\<close>.
\<close>

type_synonym byte = "8 word"
type_synonym image = "byte list"

datatype exn = IndexError | StructError

text \<open>\<^verbatim>\<open>data[a:b]\<close> with non-negative bounds: clipped to the buffer, never raising.\<close>

definition py_slice :: "image \<Rightarrow> nat \<Rightarrow> nat \<Rightarrow> image" where
  "py_slice d a b = take (b - a) (drop a d)"

text \<open>\<^verbatim>\<open>data[i]\<close> with a non-negative index: raises \<^verbatim>\<open>IndexError\<close> out of range.\<close>

definition py_index :: "image \<Rightarrow> nat \<Rightarrow> exn + byte" where
  "py_index d i = (if i < length d then Inr (d ! i) else Inl IndexError)"

text \<open>
  The byte-order prefix \<^verbatim>\<open>'<'\<close> or \<^verbatim>\<open>'>'\<close> and the three format characters the
  script uses, with their standard sizes.
\<close>

datatype endian = LE | BE
datatype fmt = H | I | Q

fun calcsize :: "fmt \<Rightarrow> nat" where
  "calcsize H = 2"
| "calcsize I = 4"
| "calcsize Q = 8"

fun le_val :: "byte list \<Rightarrow> nat" where
  "le_val [] = 0"
| "le_val (b # bs) = unat b + 256 * le_val bs"

definition decode :: "endian \<Rightarrow> byte list \<Rightarrow> nat" where
  "decode e bs = (case e of LE \<Rightarrow> le_val bs | BE \<Rightarrow> le_val (rev bs))"

text \<open>
  \<^verbatim>\<open>struct.unpack(endian + c, buf)[0]\<close>: raises \<^verbatim>\<open>struct.error\<close> unless the buffer
  has exactly the size of the format.
\<close>

definition unpack :: "endian \<Rightarrow> fmt \<Rightarrow> byte list \<Rightarrow> exn + nat" where
  "unpack e c buf =
     (if length buf \<noteq> calcsize c then Inl StructError else Inr (decode e buf))"

fun le_bytes :: "nat \<Rightarrow> nat \<Rightarrow> byte list" where
  "le_bytes 0 v = []"
| "le_bytes (Suc n) v = of_nat (v mod 256) # le_bytes n (v div 256)"

definition encode :: "endian \<Rightarrow> fmt \<Rightarrow> nat \<Rightarrow> byte list" where
  "encode e c v =
     (case e of LE \<Rightarrow> le_bytes (calcsize c) v | BE \<Rightarrow> rev (le_bytes (calcsize c) v))"

text \<open>
  \<^verbatim>\<open>struct.pack_into(endian + c, data, offset, v)\<close>: raises \<^verbatim>\<open>struct.error\<close> when
  the value does not fit the format or the field does not fit the buffer; otherwise
  the bytes of the field are replaced and the buffer keeps its length.
\<close>

definition pack_into :: "endian \<Rightarrow> fmt \<Rightarrow> image \<Rightarrow> nat \<Rightarrow> nat \<Rightarrow> exn + image" where
  "pack_into e c d off v =
     (if 256 ^ calcsize c \<le> v \<or> length d < off + calcsize c then Inl StructError
      else Inr (take off d @ encode e c v @ drop (off + calcsize c) d))"

section \<open>The ELF header\<close>

text \<open>
  Lines 26--46 and 72--74 of the script: the magic check, the class and byte-order
  bytes, and the program header table's offset and entry count. The entry size, the
  offset of \<^verbatim>\<open>p_align\<close> inside an entry and its format are literals of the branch
  taken on \<^verbatim>\<open>is_64bit\<close>.
\<close>

definition magic :: image where
  "magic = [0x7F, 0x45, 0x4C, 0x46]"

record header =
  is_64bit :: bool
  endian :: endian
  phoff :: nat
  phnum :: nat

definition phentsize :: "header \<Rightarrow> nat" where
  "phentsize h = (if is_64bit h then 56 else 32)"

definition align_sub :: "header \<Rightarrow> nat" where
  "align_sub h = (if is_64bit h then 0x30 else 0x1c)"

definition align_fmt :: "header \<Rightarrow> fmt" where
  "align_fmt h = (if is_64bit h then Q else I)"

definition read_header :: "image \<Rightarrow> exn + header" where
  "read_header d =
     (case py_index d 4 of Inl x \<Rightarrow> Inl x | Inr ei_class \<Rightarrow>
       (case py_index d 5 of Inl x \<Rightarrow> Inl x | Inr ei_data \<Rightarrow>
         (let e = (if ei_data = 1 then LE else BE) in
          if ei_class = 2 then
            (case unpack e Q (py_slice d 0x20 0x28) of Inl x \<Rightarrow> Inl x | Inr po \<Rightarrow>
              (case unpack e H (py_slice d 0x38 0x3a) of Inl x \<Rightarrow> Inl x | Inr pn \<Rightarrow>
                 Inr \<lparr>is_64bit = True, endian = e, phoff = po, phnum = pn\<rparr>))
          else
            (case unpack e I (py_slice d 0x1c 0x20) of Inl x \<Rightarrow> Inl x | Inr po \<Rightarrow>
              (case unpack e H (py_slice d 0x2c 0x2e) of Inl x \<Rightarrow> Inl x | Inr pn \<Rightarrow>
                 Inr \<lparr>is_64bit = False, endian = e, phoff = po, phnum = pn\<rparr>)))))"

section \<open>The program header loop\<close>

text \<open>
  Lines 50--69 and 78--93. The loop carries the buffer and the \<^verbatim>\<open>modified\<close> flag.
  So that a statement about which fields the loop touches can be made, the state
  also logs, in order, every slice the loop reads from the buffer and every field it
  writes: \<open>Rd a b\<close> for \<^verbatim>\<open>data[a:b]\<close>, \<open>Wr off n\<close> for a \<^verbatim>\<open>pack_into\<close> of
  \<open>n\<close> bytes at \<open>off\<close>. Console output is not modelled.
\<close>

datatype access = Rd nat nat | Wr nat nat

record edit =
  data :: image
  modified :: bool
  accesses :: "access list"

definition visit :: "header \<Rightarrow> nat \<Rightarrow> edit \<Rightarrow> exn + edit" where
  "visit h i s =
     (let ph_offset = phoff h + i * phentsize h in
      case unpack (endian h) I (py_slice (data s) ph_offset (ph_offset + 4)) of
        Inl x \<Rightarrow> Inl x
      | Inr p_type \<Rightarrow>
          let s1 = s\<lparr>accesses := accesses s @ [Rd ph_offset (ph_offset + 4)]\<rparr> in
          if p_type = 1 then
            (let align_offset = ph_offset + align_sub h;
                 w = calcsize (align_fmt h) in
             case unpack (endian h) (align_fmt h)
                    (py_slice (data s) align_offset (align_offset + w)) of
               Inl x \<Rightarrow> Inl x
             | Inr current_align \<Rightarrow>
                 let s2 = s1\<lparr>accesses := accesses s1 @ [Rd align_offset (align_offset + w)]\<rparr> in
                 if current_align < 0x4000 then
                   (case pack_into (endian h) (align_fmt h) (data s) align_offset 0x4000 of
                      Inl x \<Rightarrow> Inl x
                    | Inr d' \<Rightarrow>
                        Inr (s2\<lparr>data := d', modified := True,
                                accesses := accesses s2 @ [Wr align_offset w]\<rparr>))
                 else Inr s2)
          else Inr s1)"

fun loop :: "header \<Rightarrow> nat list \<Rightarrow> edit \<Rightarrow> exn + edit" where
  "loop h [] s = Inr s"
| "loop h (i # is) s = (case visit h i s of Inl x \<Rightarrow> Inl x | Inr s' \<Rightarrow> loop h is s')"

section \<open>The operation\<close>

text \<open>
  \<open>patch\<close> is the in-memory part of \<^verbatim>\<open>align_elf_to_16kb\<close> (lines 26--93): \<open>None\<close>
  stands for the early return at a wrong magic number. \<open>align_elf_to_16kb\<close> adds
  the file system around it: the existence test, the read, and the conditional
  write-back (lines 19--24 and 95--103). The file system maps a path to the bytes
  stored there; failures of the operating system while reading or writing are
  outside the model. The four outcomes are the four \<^verbatim>\<open>return\<close> statements, told
  apart by the message printed before them; \<open>returned\<close> is the boolean returned.
\<close>

definition patch :: "image \<Rightarrow> exn + edit option" where
  "patch d =
     (if py_slice d 0 4 \<noteq> magic then Inr None
      else
        (case read_header d of Inl x \<Rightarrow> Inl x | Inr h \<Rightarrow>
          (case loop h [0..<phnum h] \<lparr>data = d, modified = False, accesses = []\<rparr> of
             Inl x \<Rightarrow> Inl x
           | Inr s \<Rightarrow> Inr (Some s))))"

type_synonym fs = "string \<rightharpoonup> image"

datatype outcome = File_not_found | Not_an_ELF | Aligned | Already_aligned

fun returned :: "outcome \<Rightarrow> bool" where
  "returned File_not_found = False"
| "returned Not_an_ELF = False"
| "returned Aligned = True"
| "returned Already_aligned = True"

datatype io = Open_rb string | Open_wb string

record run =
  result :: "exn + outcome"
  disk :: fs
  opened :: "io list"

definition align_elf_to_16kb :: "string \<Rightarrow> fs \<Rightarrow> run" where
  "align_elf_to_16kb filepath files =
     (case files filepath of
        None \<Rightarrow> \<lparr>result = Inr File_not_found, disk = files, opened = []\<rparr>
      | Some bytes \<Rightarrow>
          (case patch bytes of
             Inl x \<Rightarrow> \<lparr>result = Inl x, disk = files, opened = [Open_rb filepath]\<rparr>
           | Inr None \<Rightarrow>
               \<lparr>result = Inr Not_an_ELF, disk = files, opened = [Open_rb filepath]\<rparr>
           | Inr (Some s) \<Rightarrow>
               if modified s then
                 \<lparr>result = Inr Aligned, disk = files(filepath \<mapsto> data s),
                  opened = [Open_rb filepath, Open_wb filepath]\<rparr>
               else
                 \<lparr>result = Inr Already_aligned, disk = files,
                  opened = [Open_rb filepath]\<rparr>))"

section \<open>Vocabulary of the statements\<close>

text \<open>
  The offsets and fields the loop computes for entry \<open>i\<close>, named as in the script:
  \<^verbatim>\<open>ph_offset\<close>, \<^verbatim>\<open>align_offset\<close>, \<^verbatim>\<open>p_type\<close> and the value \<^verbatim>\<open>current_align\<close> of
  the \<^verbatim>\<open>p_align\<close> field, read from an image \<open>d\<close>.
\<close>

definition ph_offset :: "header \<Rightarrow> nat \<Rightarrow> nat" where
  "ph_offset h i = phoff h + i * phentsize h"

definition align_offset :: "header \<Rightarrow> nat \<Rightarrow> nat" where
  "align_offset h i = ph_offset h i + align_sub h"

definition p_type :: "header \<Rightarrow> image \<Rightarrow> nat \<Rightarrow> nat" where
  "p_type h d i = decode (endian h) (py_slice d (ph_offset h i) (ph_offset h i + 4))"

definition align_field :: "header \<Rightarrow> image \<Rightarrow> nat \<Rightarrow> byte list" where
  "align_field h d i =
     py_slice d (align_offset h i) (align_offset h i + calcsize (align_fmt h))"

definition p_align :: "header \<Rightarrow> image \<Rightarrow> nat \<Rightarrow> nat" where
  "p_align h d i = decode (endian h) (align_field h d i)"

text \<open>Position \<open>p\<close> of the image lies in the alignment field of entry \<open>i\<close>.\<close>

definition in_align_field :: "header \<Rightarrow> nat \<Rightarrow> nat \<Rightarrow> bool" where
  "in_align_field h i p =
     (align_offset h i \<le> p \<and> p < align_offset h i + calcsize (align_fmt h))"

text \<open>Entry \<open>i\<close> is a loadable segment whose alignment is below 16 KiB.\<close>

definition below_16k :: "header \<Rightarrow> image \<Rightarrow> nat \<Rightarrow> bool" where
  "below_16k h d i = (p_type h d i = 1 \<and> p_align h d i < 0x4000)"

text \<open>
  Every read that the loop makes on image \<open>d\<close> is in range: the type field of every
  entry of the table, and the alignment field of every entry of type 1. This is
  exactly the condition under which the loop completes.
\<close>

definition table_readable :: "header \<Rightarrow> image \<Rightarrow> bool" where
  "table_readable h d =
     list_all
       (\<lambda>i. ph_offset h i + 4 \<le> length d \<and>
            (if p_type h d i = 1
             then align_offset h i + calcsize (align_fmt h) \<le> length d else True))
       [0..<phnum h]"

text \<open>
  The accesses that the specification's section 4.2 prescribes for one entry: the
  4-byte type field is read; only for a loadable entry the alignment field is read,
  and only below 16 KiB it is written.
\<close>

definition entry_accesses :: "header \<Rightarrow> image \<Rightarrow> nat \<Rightarrow> access list" where
  "entry_accesses h d i =
     Rd (ph_offset h i) (ph_offset h i + 4) #
     (if p_type h d i = 1 then
        Rd (align_offset h i) (align_offset h i + calcsize (align_fmt h)) #
        (if p_align h d i < 0x4000 then [Wr (align_offset h i) (calcsize (align_fmt h))]
         else [])
      else [])"

text \<open>An access covers position \<open>p\<close> of the image.\<close>

fun touches :: "access \<Rightarrow> nat \<Rightarrow> bool" where
  "touches (Rd a b) p = (a \<le> p \<and> p < b)"
| "touches (Wr off n) p = (off \<le> p \<and> p < off + n)"

text \<open>
  The integer of the \<open>n\<close> bytes at offset \<open>off\<close> in the given byte order, written
  positionally: the reading of a header field that the specification's section 4.1
  describes.
\<close>

definition field_value :: "endian \<Rightarrow> image \<Rightarrow> nat \<Rightarrow> nat \<Rightarrow> nat" where
  "field_value e d off n =
     (case e of
        LE \<Rightarrow> (\<Sum>k<n. unat (d ! (off + k)) * 256 ^ k)
      | BE \<Rightarrow> (\<Sum>k<n. unat (d ! (off + k)) * 256 ^ (n - 1 - k)))"

text \<open>
  The specification speaks of well-formed ELF input without defining it. The reading
  taken here is the part of the ELF format that concerns this program: the magic
  number is right, the header can be read, and the program header table lies inside
  the file behind the ELF header, whose size is 64 bytes for the 64-bit class and 52
  bytes otherwise. The class and byte-order bytes are not restricted.
\<close>

definition ehsize :: "header \<Rightarrow> nat" where
  "ehsize h = (if is_64bit h then 64 else 52)"

definition well_formed :: "image \<Rightarrow> bool" where
  "well_formed d =
     (py_slice d 0 4 = magic \<and>
      (case read_header d of
         Inl x \<Rightarrow> False
       | Inr h \<Rightarrow> ehsize h \<le> phoff h \<and> phoff h + phnum h * phentsize h \<le> length d))"

section \<open>Sample images\<close>

text \<open>
  A 64-bit little-endian shared object of 232 bytes with three program headers at
  offset 64: a loadable segment aligned to 0x1000, a loadable segment aligned to
  0x10000 and a dynamic segment (type 2) aligned to 8. \<open>sample64_aligned\<close> differs
  from it in the alignment field of entry 0 only (bytes 112 to 119).
\<close>

definition sample64 :: image where
  "sample64 =
    [0x7F, 0x45, 0x4C, 0x46, 0x02, 0x01, 0x01, 0x00, 0x00, 0x00, 0x00, 0x00, 0x00, 0x00, 0x00, 0x00,
     0x03, 0x00, 0xB7, 0x00, 0x01, 0x00, 0x00, 0x00, 0x00, 0x00, 0x00, 0x00, 0x00, 0x00, 0x00, 0x00,
     0x40, 0x00, 0x00, 0x00, 0x00, 0x00, 0x00, 0x00, 0x00, 0x00, 0x00, 0x00, 0x00, 0x00, 0x00, 0x00,
     0x00, 0x00, 0x00, 0x00, 0x40, 0x00, 0x38, 0x00, 0x03, 0x00, 0x40, 0x00, 0x00, 0x00, 0x00, 0x00,
     0x01, 0x00, 0x00, 0x00, 0x05, 0x00, 0x00, 0x00, 0x00, 0x00, 0x00, 0x00, 0x00, 0x00, 0x00, 0x00,
     0x00, 0x00, 0x00, 0x00, 0x00, 0x00, 0x00, 0x00, 0x00, 0x00, 0x00, 0x00, 0x00, 0x00, 0x00, 0x00,
     0xE8, 0x00, 0x00, 0x00, 0x00, 0x00, 0x00, 0x00, 0xE8, 0x00, 0x00, 0x00, 0x00, 0x00, 0x00, 0x00,
     0x00, 0x10, 0x00, 0x00, 0x00, 0x00, 0x00, 0x00, 0x01, 0x00, 0x00, 0x00, 0x06, 0x00, 0x00, 0x00,
     0x00, 0x10, 0x00, 0x00, 0x00, 0x00, 0x00, 0x00, 0x00, 0x00, 0x01, 0x00, 0x00, 0x00, 0x00, 0x00,
     0x00, 0x00, 0x01, 0x00, 0x00, 0x00, 0x00, 0x00, 0x00, 0x00, 0x00, 0x00, 0x00, 0x00, 0x00, 0x00,
     0x20, 0x00, 0x00, 0x00, 0x00, 0x00, 0x00, 0x00, 0x00, 0x00, 0x01, 0x00, 0x00, 0x00, 0x00, 0x00,
     0x02, 0x00, 0x00, 0x00, 0x06, 0x00, 0x00, 0x00, 0x00, 0x00, 0x00, 0x00, 0x00, 0x00, 0x00, 0x00,
     0x00, 0x00, 0x00, 0x00, 0x00, 0x00, 0x00, 0x00, 0x00, 0x00, 0x00, 0x00, 0x00, 0x00, 0x00, 0x00,
     0x00, 0x00, 0x00, 0x00, 0x00, 0x00, 0x00, 0x00, 0x00, 0x00, 0x00, 0x00, 0x00, 0x00, 0x00, 0x00,
     0x08, 0x00, 0x00, 0x00, 0x00, 0x00, 0x00, 0x00]"

definition sample64_aligned :: image where
  "sample64_aligned =
    [0x7F, 0x45, 0x4C, 0x46, 0x02, 0x01, 0x01, 0x00, 0x00, 0x00, 0x00, 0x00, 0x00, 0x00, 0x00, 0x00,
     0x03, 0x00, 0xB7, 0x00, 0x01, 0x00, 0x00, 0x00, 0x00, 0x00, 0x00, 0x00, 0x00, 0x00, 0x00, 0x00,
     0x40, 0x00, 0x00, 0x00, 0x00, 0x00, 0x00, 0x00, 0x00, 0x00, 0x00, 0x00, 0x00, 0x00, 0x00, 0x00,
     0x00, 0x00, 0x00, 0x00, 0x40, 0x00, 0x38, 0x00, 0x03, 0x00, 0x40, 0x00, 0x00, 0x00, 0x00, 0x00,
     0x01, 0x00, 0x00, 0x00, 0x05, 0x00, 0x00, 0x00, 0x00, 0x00, 0x00, 0x00, 0x00, 0x00, 0x00, 0x00,
     0x00, 0x00, 0x00, 0x00, 0x00, 0x00, 0x00, 0x00, 0x00, 0x00, 0x00, 0x00, 0x00, 0x00, 0x00, 0x00,
     0xE8, 0x00, 0x00, 0x00, 0x00, 0x00, 0x00, 0x00, 0xE8, 0x00, 0x00, 0x00, 0x00, 0x00, 0x00, 0x00,
     0x00, 0x40, 0x00, 0x00, 0x00, 0x00, 0x00, 0x00, 0x01, 0x00, 0x00, 0x00, 0x06, 0x00, 0x00, 0x00,
     0x00, 0x10, 0x00, 0x00, 0x00, 0x00, 0x00, 0x00, 0x00, 0x00, 0x01, 0x00, 0x00, 0x00, 0x00, 0x00,
     0x00, 0x00, 0x01, 0x00, 0x00, 0x00, 0x00, 0x00, 0x00, 0x00, 0x00, 0x00, 0x00, 0x00, 0x00, 0x00,
     0x20, 0x00, 0x00, 0x00, 0x00, 0x00, 0x00, 0x00, 0x00, 0x00, 0x01, 0x00, 0x00, 0x00, 0x00, 0x00,
     0x02, 0x00, 0x00, 0x00, 0x06, 0x00, 0x00, 0x00, 0x00, 0x00, 0x00, 0x00, 0x00, 0x00, 0x00, 0x00,
     0x00, 0x00, 0x00, 0x00, 0x00, 0x00, 0x00, 0x00, 0x00, 0x00, 0x00, 0x00, 0x00, 0x00, 0x00, 0x00,
     0x00, 0x00, 0x00, 0x00, 0x00, 0x00, 0x00, 0x00, 0x00, 0x00, 0x00, 0x00, 0x00, 0x00, 0x00, 0x00,
     0x08, 0x00, 0x00, 0x00, 0x00, 0x00, 0x00, 0x00]"

definition hdr64 :: header where
  "hdr64 = \<lparr>is_64bit = True, endian = LE, phoff = 64, phnum = 3\<rparr>"

definition sample_fs :: fs where
  "sample_fs = [''libnative.so'' \<mapsto> sample64]"

text \<open>
  An image of 84 bytes whose class byte is 7 and whose byte-order byte is 9, laid out
  as a 32-bit big-endian file: one loadable program header at offset 52, aligned to
  0x1000.
\<close>

definition odd_ident :: image where
  "odd_ident =
    [0x7F, 0x45, 0x4C, 0x46, 0x07, 0x09, 0x01, 0x00, 0x00, 0x00, 0x00, 0x00, 0x00, 0x00, 0x00, 0x00,
     0x00, 0x03, 0x00, 0x28, 0x00, 0x00, 0x00, 0x01, 0x00, 0x00, 0x00, 0x00, 0x00, 0x00, 0x00, 0x34,
     0x00, 0x00, 0x00, 0x00, 0x00, 0x00, 0x00, 0x00, 0x00, 0x34, 0x00, 0x20, 0x00, 0x01, 0x00, 0x28,
     0x00, 0x00, 0x00, 0x00, 0x00, 0x00, 0x00, 0x01, 0x00, 0x00, 0x00, 0x00, 0x00, 0x00, 0x00, 0x00,
     0x00, 0x00, 0x00, 0x00, 0x00, 0x00, 0x00, 0x54, 0x00, 0x00, 0x00, 0x54, 0x00, 0x00, 0x00, 0x05,
     0x00, 0x00, 0x10, 0x00]"

definition hdr_odd :: header where
  "hdr_odd = \<lparr>is_64bit = False, endian = BE, phoff = 52, phnum = 1\<rparr>"

text \<open>
  \<open>odd_ident\<close> with its alignment field (bytes 80 to 83) holding 0x4000 in big-endian
  order.
\<close>

definition odd_ident_aligned :: image where
  "odd_ident_aligned =
    [0x7F, 0x45, 0x4C, 0x46, 0x07, 0x09, 0x01, 0x00, 0x00, 0x00, 0x00, 0x00, 0x00, 0x00, 0x00, 0x00,
     0x00, 0x03, 0x00, 0x28, 0x00, 0x00, 0x00, 0x01, 0x00, 0x00, 0x00, 0x00, 0x00, 0x00, 0x00, 0x34,
     0x00, 0x00, 0x00, 0x00, 0x00, 0x00, 0x00, 0x00, 0x00, 0x34, 0x00, 0x20, 0x00, 0x01, 0x00, 0x28,
     0x00, 0x00, 0x00, 0x00, 0x00, 0x00, 0x00, 0x01, 0x00, 0x00, 0x00, 0x00, 0x00, 0x00, 0x00, 0x00,
     0x00, 0x00, 0x00, 0x00, 0x00, 0x00, 0x00, 0x54, 0x00, 0x00, 0x00, 0x54, 0x00, 0x00, 0x00, 0x05,
     0x00, 0x00, 0x40, 0x00]"

text \<open>The ELF header of \<open>sample64\<close> alone: the table it declares is missing.\<close>

definition truncated64 :: image where
  "truncated64 = take 64 sample64"

text \<open>The first bytes of a ZIP archive: a file that is not an ELF file.\<close>

definition zip_bytes :: image where
  "zip_bytes = [0x50, 0x4B, 0x03, 0x04, 0x14, 0x00, 0x00, 0x00]"

section \<open>Slices and packed fields\<close>

lemma py_slice_cong:
  assumes "length d' = length d"
    and "\<And>p. a \<le> p \<Longrightarrow> p < b \<Longrightarrow> p < length d \<Longrightarrow> d' ! p = d ! p"
  shows "py_slice d' a b = py_slice d a b"
proof (rule nth_equalityI)
  show "length (py_slice d' a b) = length (py_slice d a b)"
    using assms(1) by (simp add: py_slice_def)
next
  fix k assume "k < length (py_slice d' a b)"
  then have k: "k < b - a" "a + k < length d"
    using assms(1) by (auto simp: py_slice_def)
  then have "d' ! (a + k) = d ! (a + k)"
    by (intro assms(2)) auto
  with k assms(1) show "py_slice d' a b ! k = py_slice d a b ! k"
    by (simp add: py_slice_def)
qed

lemma length_le_bytes: "length (le_bytes n v) = n"
  by (induction n arbitrary: v) auto

lemma length_encode: "length (encode e c v) = calcsize c"
  by (cases e) (simp_all add: encode_def length_le_bytes)

lemma pack_into_length: "pack_into e c d off v = Inr d' \<Longrightarrow> length d' = length d"
  by (auto simp: pack_into_def length_encode split: if_splits)

lemma pack_into_nth:
  "pack_into e c d off v = Inr d' \<Longrightarrow> p < off \<or> off + calcsize c \<le> p \<Longrightarrow> d' ! p = d ! p"
  by (auto simp: pack_into_def length_encode nth_append split: if_splits)

lemma pack_into_slice:
  "pack_into e c d off v = Inr d' \<Longrightarrow> py_slice d' off (off + calcsize c) = encode e c v"
  by (auto simp: pack_into_def py_slice_def length_encode split: if_splits)

lemma pack_into_ok:
  "v < 256 ^ calcsize c \<Longrightarrow> off + calcsize c \<le> length d \<Longrightarrow> \<exists>d'. pack_into e c d off v = Inr d'"
  by (auto simp: pack_into_def)

lemma calcsize_pos: "0 < calcsize c"
  by (cases c) auto

lemma py_slice_exact: "length (py_slice d a (a + calcsize c)) = calcsize c \<longleftrightarrow> a + calcsize c \<le> length d"
  using calcsize_pos [of c] by (auto simp: py_slice_def)

lemma py_slice_exact4: "length (py_slice d a (a + 4)) = 4 \<longleftrightarrow> a + 4 \<le> length d"
  by (auto simp: py_slice_def)

lemma visit_Inr:
  assumes "visit h i s = Inr s'"
  shows "ph_offset h i + 4 \<le> length (data s)"
    and "p_type h (data s) i \<noteq> 1 \<Longrightarrow> data s' = data s \<and> modified s' = modified s"
    and "p_type h (data s) i = 1 \<Longrightarrow> align_offset h i + calcsize (align_fmt h) \<le> length (data s)"
    and "p_type h (data s) i = 1 \<Longrightarrow> \<not> p_align h (data s) i < 0x4000 \<Longrightarrow>
           data s' = data s \<and> modified s' = modified s"
    and "p_type h (data s) i = 1 \<Longrightarrow> p_align h (data s) i < 0x4000 \<Longrightarrow>
           pack_into (endian h) (align_fmt h) (data s) (align_offset h i) 0x4000 = Inr (data s')
           \<and> modified s'"
    and "accesses s' = accesses s @ entry_accesses h (data s) i"
  using assms
  by (auto simp: visit_def Let_def unpack_def ph_offset_def align_offset_def p_type_def
      p_align_def align_field_def entry_accesses_def py_slice_exact py_slice_exact4
      split: sum.splits if_splits)

lemma type_field_disjoint:
  "in_align_field h i p \<Longrightarrow> \<not> (ph_offset h j \<le> p \<and> p < ph_offset h j + 4)"
  by (cases "i < j"; cases "j < i"; cases "is_64bit h")
     (auto simp: in_align_field_def align_offset_def ph_offset_def phentsize_def
        align_sub_def align_fmt_def)

lemma align_field_disjoint:
  "i \<noteq> j \<Longrightarrow> in_align_field h i p \<Longrightarrow> \<not> in_align_field h j p"
  by (cases "i < j"; cases "j < i"; cases "is_64bit h")
     (auto simp: in_align_field_def align_offset_def ph_offset_def phentsize_def
        align_sub_def align_fmt_def)

lemma visit_length: "visit h i s = Inr s' \<Longrightarrow> length (data s') = length (data s)"
  using visit_Inr(2,4,5) [of h i s s'] pack_into_length by metis

lemma visit_frame:
  assumes "visit h i s = Inr s'" and "data s' ! p \<noteq> data s ! p"
  shows "in_align_field h i p \<and> below_16k h (data s) i"
proof -
  from assms visit_Inr(2,4) [OF assms(1)] have b: "below_16k h (data s) i"
    unfolding below_16k_def by metis
  then have "pack_into (endian h) (align_fmt h) (data s) (align_offset h i) 0x4000 = Inr (data s')"
    using visit_Inr(5) [OF assms(1)] by (simp add: below_16k_def)
  from pack_into_nth [OF this, of p] assms(2) have "in_align_field h i p"
    unfolding in_align_field_def by (meson not_le_imp_less)
  with b show ?thesis by simp
qed

lemma visit_p_type:
  assumes "visit h i s = Inr s'"
  shows "p_type h (data s') j = p_type h (data s) j"
proof -
  have "py_slice (data s') (ph_offset h j) (ph_offset h j + 4)
      = py_slice (data s) (ph_offset h j) (ph_offset h j + 4)"
  proof (rule py_slice_cong [OF visit_length [OF assms]])
    fix p assume "ph_offset h j \<le> p" "p < ph_offset h j + 4"
    then show "data s' ! p = data s ! p"
      using visit_frame [OF assms, of p] type_field_disjoint [of h i p j] by blast
  qed
  then show ?thesis by (simp add: p_type_def)
qed

lemma visit_align_field_other:
  assumes "visit h i s = Inr s'" and "j \<noteq> i"
  shows "align_field h (data s') j = align_field h (data s) j"
  unfolding align_field_def
proof (rule py_slice_cong [OF visit_length [OF assms(1)]])
  fix p assume "align_offset h j \<le> p" "p < align_offset h j + calcsize (align_fmt h)"
  then have "in_align_field h j p" by (simp add: in_align_field_def)
  then show "data s' ! p = data s ! p"
    using visit_frame [OF assms(1), of p] align_field_disjoint [OF assms(2), of h p] by blast
qed

lemma visit_align_field_self:
  assumes "visit h i s = Inr s'"
  shows "align_field h (data s') i =
    (if below_16k h (data s) i then encode (endian h) (align_fmt h) 0x4000
     else align_field h (data s) i)"
proof (cases "below_16k h (data s) i")
  case True
  then have "pack_into (endian h) (align_fmt h) (data s) (align_offset h i) 0x4000 = Inr (data s')"
    using visit_Inr(5) [OF assms] by (simp add: below_16k_def)
  from pack_into_slice [OF this] True show ?thesis by (simp add: align_field_def)
next
  case False
  then have "data s' = data s"
    using visit_Inr(2,4) [OF assms] unfolding below_16k_def by metis
  with False show ?thesis by simp
qed

lemma visit_modified:
  "visit h i s = Inr s' \<Longrightarrow> modified s' = (modified s \<or> below_16k h (data s) i)"
  using visit_Inr(2,4,5) [of h i s s'] unfolding below_16k_def by metis

lemma visit_below_other:
  assumes "visit h i s = Inr s'" and "j \<noteq> i"
  shows "below_16k h (data s') j = below_16k h (data s) j"
  by (simp add: below_16k_def p_align_def visit_p_type [OF assms(1)]
      visit_align_field_other [OF assms])

lemma visit_entry_accesses_other:
  assumes "visit h i s = Inr s'" and "j \<noteq> i"
  shows "entry_accesses h (data s') j = entry_accesses h (data s) j"
  by (simp add: entry_accesses_def p_align_def visit_p_type [OF assms(1)]
      visit_align_field_other [OF assms])

lemma visit_ok:
  assumes "ph_offset h i + phentsize h \<le> length (data s)"
  shows "\<exists>s'. visit h i s = Inr s'"
proof -
  have 1: "ph_offset h i + 4 \<le> length (data s)"
    using assms by (simp add: phentsize_def split: if_splits)
  have 2: "align_offset h i + calcsize (align_fmt h) \<le> length (data s)"
    using assms by (simp add: phentsize_def align_offset_def align_sub_def align_fmt_def
        split: if_splits)
  have 3: "\<exists>d'. pack_into (endian h) (align_fmt h) (data s) (align_offset h i) 0x4000 = Inr d'"
    by (rule pack_into_ok [OF _ 2]) (simp add: align_fmt_def)
  from 1 2 3 show ?thesis
    by (auto simp: visit_def Let_def unpack_def py_slice_exact py_slice_exact4
        ph_offset_def [symmetric] align_offset_def [symmetric]
        split: sum.splits)
qed

section \<open>Invariants of the loop\<close>

lemma loop_length: "loop h is s = Inr s' \<Longrightarrow> length (data s') = length (data s)"
proof (induction "is" arbitrary: s)
  case Nil
  then show ?case by simp
next
  case (Cons i "is")
  then obtain s1 where 1: "visit h i s = Inr s1" and 2: "loop h is s1 = Inr s'"
    by (auto split: sum.splits)
  from Cons.IH [OF 2] visit_length [OF 1] show ?case by simp
qed

lemma loop_p_type: "loop h is s = Inr s' \<Longrightarrow> p_type h (data s') j = p_type h (data s) j"
proof (induction "is" arbitrary: s)
  case Nil
  then show ?case by simp
next
  case (Cons i "is")
  then obtain s1 where 1: "visit h i s = Inr s1" and 2: "loop h is s1 = Inr s'"
    by (auto split: sum.splits)
  from Cons.IH [OF 2] visit_p_type [OF 1] show ?case by simp
qed

lemma loop_frame:
  "loop h is s = Inr s' \<Longrightarrow> data s' ! p \<noteq> data s ! p \<Longrightarrow>
     \<exists>i\<in>set is. p_type h (data s) i = 1 \<and> in_align_field h i p"
proof (induction "is" arbitrary: s)
  case Nil
  then show ?case by simp
next
  case (Cons i "is")
  then obtain s1 where 1: "visit h i s = Inr s1" and 2: "loop h is s1 = Inr s'"
    by (auto split: sum.splits)
  show ?case
  proof (cases "data s1 ! p = data s ! p")
    case True
    with Cons.prems(2) have "data s' ! p \<noteq> data s1 ! p" by simp
    from Cons.IH [OF 2 this] obtain j where "j \<in> set is" "p_type h (data s1) j = 1"
      "in_align_field h j p" by blast
    then show ?thesis using visit_p_type [OF 1, of j] by auto
  next
    case False
    from visit_frame [OF 1 False] show ?thesis by (auto simp: below_16k_def)
  qed
qed

lemma loop_align_field:
  "distinct is \<Longrightarrow> loop h is s = Inr s' \<Longrightarrow>
     align_field h (data s') j =
       (if j \<in> set is \<and> below_16k h (data s) j then encode (endian h) (align_fmt h) 0x4000
        else align_field h (data s) j)"
proof (induction "is" arbitrary: s)
  case Nil
  then show ?case by simp
next
  case (Cons i "is")
  then obtain s1 where 1: "visit h i s = Inr s1" and 2: "loop h is s1 = Inr s'"
    by (auto split: sum.splits)
  from Cons.prems(1) have d: "distinct is" and ni: "i \<notin> set is" by auto
  note IH = Cons.IH [OF d 2]
  show ?case
  proof (cases "j = i")
    case True
    with IH ni visit_align_field_self [OF 1] show ?thesis by simp
  next
    case False
    with IH visit_align_field_other [OF 1 False] visit_below_other [OF 1 False]
    show ?thesis by simp
  qed
qed

lemma loop_modified:
  "distinct is \<Longrightarrow> loop h is s = Inr s' \<Longrightarrow>
     modified s' = (modified s \<or> (\<exists>i\<in>set is. below_16k h (data s) i))"
proof (induction "is" arbitrary: s)
  case Nil
  then show ?case by simp
next
  case (Cons i "is")
  then obtain s1 where 1: "visit h i s = Inr s1" and 2: "loop h is s1 = Inr s'"
    by (auto split: sum.splits)
  from Cons.prems(1) have d: "distinct is" and ni: "i \<notin> set is" by auto
  have "(\<exists>j\<in>set is. below_16k h (data s1) j) = (\<exists>j\<in>set is. below_16k h (data s) j)"
    using visit_below_other [OF 1] ni by (metis)
  with Cons.IH [OF d 2] visit_modified [OF 1] show ?case by auto
qed

lemma loop_accesses:
  "distinct is \<Longrightarrow> loop h is s = Inr s' \<Longrightarrow>
     accesses s' = accesses s @ concat (map (entry_accesses h (data s)) is)"
proof (induction "is" arbitrary: s)
  case Nil
  then show ?case by simp
next
  case (Cons i "is")
  then obtain s1 where 1: "visit h i s = Inr s1" and 2: "loop h is s1 = Inr s'"
    by (auto split: sum.splits)
  from Cons.prems(1) have d: "distinct is" and ni: "i \<notin> set is" by auto
  have "map (entry_accesses h (data s1)) is = map (entry_accesses h (data s)) is"
  proof (rule map_cong [OF refl])
    fix j assume "j \<in> set is"
    with ni have "j \<noteq> i" by blast
    then show "entry_accesses h (data s1) j = entry_accesses h (data s) j"
      by (rule visit_entry_accesses_other [OF 1])
  qed
  with Cons.IH [OF d 2] visit_Inr(6) [OF 1] show ?case by simp
qed

lemma loop_ok:
  "(\<And>i. i \<in> set is \<Longrightarrow> ph_offset h i + phentsize h \<le> length (data s)) \<Longrightarrow>
     \<exists>s'. loop h is s = Inr s'"
proof (induction "is" arbitrary: s)
  case Nil
  then show ?case by simp
next
  case (Cons i "is")
  from visit_ok [of h i s] Cons.prems obtain s1 where 1: "visit h i s = Inr s1" by auto
  have "\<exists>s'. loop h is s1 = Inr s'"
    by (rule Cons.IH) (simp add: visit_length [OF 1] Cons.prems)
  with 1 show ?case by simp
qed

lemma le_bytes_numeral:
  "le_bytes (numeral k) v = of_nat (v mod 256) # le_bytes (pred_numeral k) (v div 256)"
proof -
  have "le_bytes (Suc (pred_numeral k)) v =
      of_nat (v mod 256) # le_bytes (pred_numeral k) (v div 256)"
    by (rule le_bytes.simps)
  then show ?thesis by (simp only: numeral_eq_Suc [of k, symmetric])
qed

lemma encode_0x4000:
  "encode LE Q 0x4000 = [0, 0x40, 0, 0, 0, 0, 0, 0]"
  "encode BE Q 0x4000 = [0, 0, 0, 0, 0, 0, 0x40, 0]"
  "encode LE I 0x4000 = [0, 0x40, 0, 0]"
  "encode BE I 0x4000 = [0, 0, 0x40, 0]"
  by (simp_all add: encode_def le_bytes_numeral)

lemma decode_encode_0x4000: "decode e (encode e (align_fmt h) 0x4000) = 0x4000"
  by (cases e; cases "is_64bit h") (simp_all add: align_fmt_def encode_0x4000 decode_def)

lemma patch_SomeD:
  assumes "patch d = Inr (Some s)"
  obtains h where "py_slice d 0 4 = magic" "read_header d = Inr h"
    "loop h [0..<phnum h] \<lparr>data = d, modified = False, accesses = []\<rparr> = Inr s"
  using assms by (auto simp: patch_def split: if_splits sum.splits)

lemma read_header_cong:
  assumes len: "length d' = length d" and eq: "\<And>p. p < 0x3a \<Longrightarrow> d' ! p = d ! p"
  shows "read_header d' = read_header d"
proof -
  have s: "py_slice d' a b = py_slice d a b" if "b \<le> 0x3a" for a b
    by (rule py_slice_cong [OF len]) (use that in \<open>auto intro: eq\<close>)
  have i: "py_index d' k = py_index d k" if "k < 0x3a" for k
    using that len eq [of k] by (simp add: py_index_def)
  show ?thesis
    unfolding read_header_def
    by (simp only: s [of "0x28" "0x20"] s [of "0x3a" "0x38"] s [of "0x20" "0x1c"]
        s [of "0x2e" "0x2c"] i [of 4] i [of 5])
qed

lemma loop_unchanged:
  "(\<And>i. i \<in> set is \<Longrightarrow> \<not> below_16k h (data s) i) \<Longrightarrow> loop h is s = Inr s' \<Longrightarrow>
     data s' = data s \<and> modified s' = modified s"
proof (induction "is" arbitrary: s)
  case Nil
  then show ?case by simp
next
  case (Cons i "is")
  from Cons.prems(2) obtain s1 where 1: "visit h i s = Inr s1" and 2: "loop h is s1 = Inr s'"
    by (auto split: sum.splits)
  have "\<not> below_16k h (data s) i" using Cons.prems(1) by simp
  then have eq: "data s1 = data s \<and> modified s1 = modified s"
    using visit_Inr(2,4) [OF 1] unfolding below_16k_def by metis
  have "data s' = data s1 \<and> modified s' = modified s1"
    by (rule Cons.IH [OF _ 2]) (simp add: eq Cons.prems(1))
  with eq show ?case by simp
qed

text \<open>What a successful run of the loop over the whole table leaves behind.\<close>

lemma loop_table_below:
  assumes "loop h [0..<n] s = Inr s'" and "i < n"
  shows "\<not> below_16k h (data s') i"
proof -
  have af: "align_field h (data s') i =
      (if below_16k h (data s) i then encode (endian h) (align_fmt h) 0x4000
       else align_field h (data s) i)"
    using loop_align_field [OF _ assms(1), of i] assms(2) by simp
  have ty: "p_type h (data s') i = p_type h (data s) i"
    by (rule loop_p_type [OF assms(1)])
  show ?thesis
  proof (cases "below_16k h (data s) i")
    case True
    with af have "p_align h (data s') i = 0x4000"
      by (simp add: p_align_def decode_encode_0x4000)
    then show ?thesis by (simp add: below_16k_def)
  next
    case False
    with af have "p_align h (data s') i = p_align h (data s) i"
      by (simp add: p_align_def)
    with False ty show ?thesis by (simp add: below_16k_def)
  qed
qed

lemma in_table:
  "phoff h + phnum h * phentsize h \<le> n \<Longrightarrow> i < phnum h \<Longrightarrow> ph_offset h i + phentsize h \<le> n"
proof -
  assume a: "phoff h + phnum h * phentsize h \<le> n" and b: "i < phnum h"
  from b have "Suc i * phentsize h \<le> phnum h * phentsize h"
    by (intro mult_le_mono1) simp
  with a show ?thesis by (simp add: ph_offset_def)
qed

lemma well_formed_loop_header:
  assumes "read_header d = Inr h" and "ehsize h \<le> phoff h"
    and "loop h is \<lparr>data = d, modified = False, accesses = []\<rparr> = Inr s"
  shows "read_header (data s) = Inr h"
proof -
  have "read_header (data s) = read_header d"
  proof (rule read_header_cong)
    show "length (data s) = length d" using loop_length [OF assms(3)] by simp
  next
    fix p :: nat assume p: "p < 0x3a"
    show "data s ! p = d ! p"
    proof (rule ccontr)
      assume "data s ! p \<noteq> d ! p"
      with loop_frame [OF assms(3), of p] obtain i where "in_align_field h i p" by auto
      then have "phoff h + align_sub h \<le> p"
        by (simp add: in_align_field_def align_offset_def ph_offset_def)
      with p assms(2) show False
        by (simp add: ehsize_def align_sub_def split: if_splits)
    qed
  qed
  with assms(1) show ?thesis by simp
qed

section \<open>The operation on a stored file\<close>

lemma run_Some:
  assumes "files path = Some d" and "patch d = Inr (Some s)"
  shows "align_elf_to_16kb path files =
    (if modified s then
       \<lparr>result = Inr Aligned, disk = files(path \<mapsto> data s),
        opened = [Open_rb path, Open_wb path]\<rparr>
     else \<lparr>result = Inr Already_aligned, disk = files, opened = [Open_rb path]\<rparr>)"
  using assms by (simp add: align_elf_to_16kb_def)

lemma run_success:
  assumes "files path = Some d" and "result (align_elf_to_16kb path files) = Inr out"
    and "returned out"
  obtains s where "patch d = Inr (Some s)"
  using assms
  by (cases "patch d") (auto simp: align_elf_to_16kb_def split: option.splits if_splits)

lemma patch_ok:
  assumes "well_formed d"
  obtains h s where "read_header d = Inr h" "ehsize h \<le> phoff h"
    "phoff h + phnum h * phentsize h \<le> length d" "py_slice d 0 4 = magic"
    "loop h [0..<phnum h] \<lparr>data = d, modified = False, accesses = []\<rparr> = Inr s"
    "patch d = Inr (Some s)"
proof -
  from assms obtain h where h: "py_slice d 0 4 = magic" "read_header d = Inr h"
      "ehsize h \<le> phoff h" "phoff h + phnum h * phentsize h \<le> length d"
    by (auto simp: well_formed_def split: sum.splits)
  have "\<exists>s. loop h [0..<phnum h] \<lparr>data = d, modified = False, accesses = []\<rparr> = Inr s"
    by (rule loop_ok) (use in_table [OF h(4)] in simp)
  then obtain s where s: "loop h [0..<phnum h] \<lparr>data = d, modified = False, accesses = []\<rparr> = Inr s" ..
  with h have "patch d = Inr (Some s)" by (simp add: patch_def)
  with h s that show thesis by blast
qed

lemma patch_unmodified:
  assumes "patch d = Inr (Some s)" and "\<not> modified s"
  shows "data s = d"
proof -
  from assms(1) obtain h where
    l: "loop h [0..<phnum h] \<lparr>data = d, modified = False, accesses = []\<rparr> = Inr s"
    by (rule patch_SomeD)
  from loop_modified [OF _ l] assms(2) have "\<forall>i\<in>set [0..<phnum h]. \<not> below_16k h d i"
    by simp
  with loop_unchanged [OF _ l] show ?thesis by simp
qed

lemma run_disk:
  assumes "files path = Some d" and "patch d = Inr (Some s)"
  shows "disk (align_elf_to_16kb path files) path = Some (data s)"
    and "result (align_elf_to_16kb path files) = Inr (if modified s then Aligned else Already_aligned)"
    and "disk (align_elf_to_16kb path files) = files(path \<mapsto> data s)"
proof -
  have "\<not> modified s \<Longrightarrow> files(path \<mapsto> data s) = files"
    using patch_unmodified [OF assms(2)] assms(1) by (simp add: fun_upd_idem)
  then show "disk (align_elf_to_16kb path files) = files(path \<mapsto> data s)"
    by (simp add: run_Some [of files path, OF assms])
  then show "disk (align_elf_to_16kb path files) path = Some (data s)" by simp
  show "result (align_elf_to_16kb path files) = Inr (if modified s then Aligned else Already_aligned)"
    by (simp add: run_Some [of files path, OF assms])
qed

lemma loop_p_align:
  assumes "loop h [0..<n] s = Inr s'" and "i < n" and "p_type h (data s) i = 1"
  shows "0x4000 \<le> p_align h (data s') i \<and> p_align h (data s) i \<le> p_align h (data s') i"
proof -
  have af: "align_field h (data s') i =
      (if below_16k h (data s) i then encode (endian h) (align_fmt h) 0x4000
       else align_field h (data s) i)"
    using loop_align_field [OF _ assms(1), of i] assms(2) by simp
  show ?thesis
  proof (cases "below_16k h (data s) i")
    case True
    with af have "p_align h (data s') i = 0x4000"
      by (simp add: p_align_def decode_encode_0x4000)
    with True show ?thesis by (simp add: below_16k_def)
  next
    case False
    with af have "p_align h (data s') i = p_align h (data s) i"
      by (simp add: p_align_def)
    with False assms(3) show ?thesis by (simp add: below_16k_def)
  qed
qed

lemma header_region_kept:
  assumes "ehsize h \<le> phoff h"
    and "loop h is \<lparr>data = d, modified = False, accesses = []\<rparr> = Inr s" and "p < 0x3a"
  shows "data s ! p = d ! p"
proof (rule ccontr)
  assume "data s ! p \<noteq> d ! p"
  with loop_frame [OF assms(2), of p] obtain i where "in_align_field h i p" by auto
  then have "phoff h + align_sub h \<le> p"
    by (simp add: in_align_field_def align_offset_def ph_offset_def)
  with assms(1,3) show False
    by (simp add: ehsize_def align_sub_def split: if_splits)
qed

lemma well_formed_patched:
  assumes "well_formed d" and "patch d = Inr (Some s)"
  shows "well_formed (data s)"
proof -
  from assms(1) obtain h s0 where h: "read_header d = Inr h" and e: "ehsize h \<le> phoff h"
    and t: "phoff h + phnum h * phentsize h \<le> length d" and m: "py_slice d 0 4 = magic"
    and l: "loop h [0..<phnum h] \<lparr>data = d, modified = False, accesses = []\<rparr> = Inr s0"
    and p: "patch d = Inr (Some s0)"
    by (rule patch_ok)
  from p assms(2) have [simp]: "s0 = s" by simp
  have len: "length (data s) = length d" using loop_length [OF l] by simp
  have "py_slice (data s) 0 4 = py_slice d 0 4"
    by (rule py_slice_cong [OF len]) (use header_region_kept [OF e l] in simp)
  with m h e t len well_formed_loop_header [OF h e l] show ?thesis
    by (simp add: well_formed_def)
qed

section \<open>Header fields, positionally\<close>

lemma le_val_sum: "le_val bs = (\<Sum>k<length bs. unat (bs ! k) * 256 ^ k)"
proof (induction bs)
  case Nil
  then show ?case by simp
next
  case (Cons b bs)
  have "(\<Sum>k<Suc (length bs). unat ((b # bs) ! k) * 256 ^ k) =
      unat ((b # bs) ! 0) * 256 ^ 0 + (\<Sum>k<length bs. unat ((b # bs) ! Suc k) * 256 ^ Suc k)"
    by (rule sum.lessThan_Suc_shift)
  then have "(\<Sum>k<length (b # bs). unat ((b # bs) ! k) * 256 ^ k) =
      unat b + (\<Sum>k<length bs. unat (bs ! k) * 256 ^ Suc k)"
    by simp
  also have "\<dots> = unat b + 256 * (\<Sum>k<length bs. unat (bs ! k) * 256 ^ k)"
    by (simp add: sum_distrib_left mult.assoc mult.left_commute)
  finally show ?case using Cons.IH by simp
qed

lemma le_val_rev_sum:
  "le_val (rev bs) = (\<Sum>k<length bs. unat (bs ! k) * 256 ^ (length bs - 1 - k))"
proof -
  let ?n = "length bs"
  let ?g = "\<lambda>k. unat (bs ! k) * 256 ^ (?n - 1 - k)"
  have "le_val (rev bs) = (\<Sum>k<?n. unat (rev bs ! k) * 256 ^ k)"
    using le_val_sum [of "rev bs"] by simp
  also have "\<dots> = (\<Sum>k<?n. ?g (?n - Suc k))"
    by (rule sum.cong) (auto simp: rev_nth)
  also have "\<dots> = (\<Sum>k<?n. ?g k)"
    by (rule sum.nat_diff_reindex)
  finally show ?thesis .
qed

lemma decode_field_value:
  assumes "a + n \<le> length d"
  shows "decode e (py_slice d a (a + n)) = field_value e d a n"
proof -
  have len: "length (py_slice d a (a + n)) = n"
    using assms by (simp add: py_slice_def)
  have nth: "py_slice d a (a + n) ! k = d ! (a + k)" if "k < n" for k
    using assms that by (simp add: py_slice_def)
  show ?thesis
  proof (cases e)
    case LE
    then show ?thesis
      by (simp add: decode_def field_value_def le_val_sum len nth)
  next
    case BE
    then show ?thesis
      by (simp add: decode_def field_value_def le_val_rev_sum len nth)
  qed
qed

lemma read_header_InrD:
  assumes "read_header d = Inr h"
  shows "5 < length d"
    and "is_64bit h = (d ! 4 = 2)" and "endian h = (if d ! 5 = 1 then LE else BE)"
    and "d ! 4 \<noteq> 2 \<Longrightarrow> 0x2e \<le> length d"
    and "d ! 4 = 2 \<Longrightarrow> 0x3a \<le> length d"
    and "d ! 4 \<noteq> 2 \<Longrightarrow> phoff h = decode (endian h) (py_slice d 0x1c 0x20) \<and>
           phnum h = decode (endian h) (py_slice d 0x2c 0x2e)"
proof -
  from assms show 1: "5 < length d"
    by (auto simp: read_header_def py_index_def split: if_splits sum.splits)
  with assms show "is_64bit h = (d ! 4 = 2)" "endian h = (if d ! 5 = 1 then LE else BE)"
    by (auto simp: read_header_def py_index_def Let_def split: if_splits sum.splits)
  from assms 1 show "d ! 4 \<noteq> 2 \<Longrightarrow> 0x2e \<le> length d"
    by (auto simp: read_header_def py_index_def Let_def unpack_def py_slice_def
        split: if_splits sum.splits)
  from assms 1 show "d ! 4 = 2 \<Longrightarrow> 0x3a \<le> length d"
    by (auto simp: read_header_def py_index_def Let_def unpack_def py_slice_def
        split: if_splits sum.splits)
  from assms 1 show "d ! 4 \<noteq> 2 \<Longrightarrow> phoff h = decode (endian h) (py_slice d 0x1c 0x20) \<and>
      phnum h = decode (endian h) (py_slice d 0x2c 0x2e)"
    by (auto simp: read_header_def py_index_def Let_def unpack_def
        split: if_splits sum.splits)
qed

lemma entry_accesses_touch:
  assumes "a \<in> set (entry_accesses h d j)" and "touches a p"
  shows "(ph_offset h j \<le> p \<and> p < ph_offset h j + 4) \<or>
         (p_type h d j = 1 \<and> in_align_field h j p)"
  using assms by (auto simp: entry_accesses_def in_align_field_def split: if_splits)

section \<open>When the loop completes\<close>

lemma visit_ok_readable:
  assumes "ph_offset h i + 4 \<le> length (data s)"
    and "p_type h (data s) i = 1 \<Longrightarrow>
           align_offset h i + calcsize (align_fmt h) \<le> length (data s)"
  shows "\<exists>s'. visit h i s = Inr s'"
proof (cases "p_type h (data s) i = 1")
  case True
  note 2 = assms(2) [OF True]
  have 3: "\<exists>d'. pack_into (endian h) (align_fmt h) (data s) (align_offset h i) 0x4000 = Inr d'"
    by (rule pack_into_ok [OF _ 2]) (simp add: align_fmt_def)
  from assms(1) 2 3 show ?thesis
    by (auto simp: visit_def Let_def unpack_def py_slice_exact py_slice_exact4
        ph_offset_def [symmetric] align_offset_def [symmetric]
        split: sum.splits)
next
  case False
  with assms(1) show ?thesis
    by (auto simp: visit_def Let_def unpack_def py_slice_exact4 p_type_def
        ph_offset_def [symmetric] split: sum.splits)
qed

lemma loop_ok_readable:
  "(\<And>i. i \<in> set is \<Longrightarrow> ph_offset h i + 4 \<le> length (data s) \<and>
        (p_type h (data s) i = 1 \<longrightarrow>
           align_offset h i + calcsize (align_fmt h) \<le> length (data s))) \<Longrightarrow>
     \<exists>s'. loop h is s = Inr s'"
proof (induction "is" arbitrary: s)
  case Nil
  then show ?case by simp
next
  case (Cons i "is")
  from visit_ok_readable [of h i s] Cons.prems [of i]
  obtain s1 where 1: "visit h i s = Inr s1" by auto
  have "\<exists>s'. loop h is s1 = Inr s'"
  proof (rule Cons.IH)
    fix j assume "j \<in> set is"
    with Cons.prems [of j] show "ph_offset h j + 4 \<le> length (data s1) \<and>
        (p_type h (data s1) j = 1 \<longrightarrow>
           align_offset h j + calcsize (align_fmt h) \<le> length (data s1))"
      by (simp add: visit_length [OF 1] visit_p_type [OF 1])
  qed
  with 1 show ?case by simp
qed

lemma loop_Inr_readable:
  "loop h is s = Inr s' \<Longrightarrow> i \<in> set is \<Longrightarrow>
     ph_offset h i + 4 \<le> length (data s) \<and>
     (p_type h (data s) i = 1 \<longrightarrow>
        align_offset h i + calcsize (align_fmt h) \<le> length (data s))"
proof (induction "is" arbitrary: s)
  case Nil
  then show ?case by simp
next
  case (Cons j "is")
  from Cons.prems(1) obtain s1 where 1: "visit h j s = Inr s1" and 2: "loop h is s1 = Inr s'"
    by (auto split: sum.splits)
  show ?case
  proof (cases "i = j")
    case True
    with visit_Inr(1,3) [OF 1] show ?thesis by simp
  next
    case False
    with Cons.prems(2) have "i \<in> set is" by simp
    from Cons.IH [OF 2 this] show ?thesis
      by (simp add: visit_length [OF 1] visit_p_type [OF 1])
  qed
qed

lemma table_readable_iff:
  "table_readable h d \<longleftrightarrow>
     (\<forall>i<phnum h. ph_offset h i + 4 \<le> length d \<and>
        (p_type h d i = 1 \<longrightarrow> align_offset h i + calcsize (align_fmt h) \<le> length d))"
  by (auto simp: table_readable_def list_all_iff)

lemma patch_completes:
  assumes "take 4 d = magic" and "read_header d = Inr h" and "table_readable h d"
  obtains s where
    "loop h [0..<phnum h] \<lparr>data = d, modified = False, accesses = []\<rparr> = Inr s"
    "patch d = Inr (Some s)"
proof -
  have "\<exists>s. loop h [0..<phnum h] \<lparr>data = d, modified = False, accesses = []\<rparr> = Inr s"
    by (rule loop_ok_readable) (use assms(3) in \<open>simp add: table_readable_iff\<close>)
  then obtain s where
    s: "loop h [0..<phnum h] \<lparr>data = d, modified = False, accesses = []\<rparr> = Inr s" ..
  with assms(1,2) have "patch d = Inr (Some s)" by (simp add: patch_def py_slice_def)
  with s that show thesis by blast
qed

lemma patch_Some_readable:
  assumes "read_header d = Inr h" and "patch d = Inr (Some s)"
  shows "table_readable h d"
proof -
  from assms have l: "loop h [0..<phnum h] \<lparr>data = d, modified = False, accesses = []\<rparr> = Inr s"
    by (auto elim: patch_SomeD)
  show ?thesis
    unfolding table_readable_iff using loop_Inr_readable [OF l] by simp
qed

lemma table_in_image_readable:
  assumes "phoff h + phnum h * phentsize h \<le> length d"
  shows "table_readable h d"
  unfolding table_readable_iff
proof (intro allI impI)
  fix i assume "i < phnum h"
  from in_table [OF assms this] show "ph_offset h i + 4 \<le> length d \<and>
      (p_type h d i = 1 \<longrightarrow> align_offset h i + calcsize (align_fmt h) \<le> length d)"
    by (simp add: phentsize_def align_offset_def align_sub_def align_fmt_def split: if_splits)
qed

lemma read_header_total:
  assumes "(if d ! 4 = 2 then 0x3a else 0x2e) \<le> length d"
  shows "\<exists>h. read_header d = Inr h"
proof (cases "d ! 4 = 2")
  case True
  with assms have len: "0x3a \<le> length d" by simp
  then have "length (py_slice d 0x20 0x28) = 8" "length (py_slice d 0x38 0x3a) = 2"
    by (simp_all add: py_slice_def)
  with len True show ?thesis
    by (simp add: read_header_def py_index_def unpack_def Let_def)
next
  case False
  with assms have len: "0x2e \<le> length d" by simp
  then have "length (py_slice d 0x1c 0x20) = 4" "length (py_slice d 0x2c 0x2e) = 2"
    by (simp_all add: py_slice_def)
  with len False show ?thesis
    by (simp add: read_header_def py_index_def unpack_def Let_def)
qed

section \<open>The sample images, evaluated\<close>

lemma read_header_sample64: "read_header sample64 = Inr hdr64"
  by (simp add: sample64_def hdr64_def read_header_def py_index_def unpack_def py_slice_def decode_def)

lemma upt3: "[0..<3] = [0, 1, 2]"
  by (simp add: upt_rec)

lemmas run_defs = visit_def Let_def unpack_def py_slice_def decode_def pack_into_def
  phentsize_def align_sub_def align_fmt_def encode_def le_bytes_numeral

lemma loop_sample64:
  "loop hdr64 [0, 1, 2] \<lparr>data = sample64, modified = False, accesses = []\<rparr> =
     Inr \<lparr>data = sample64_aligned, modified = True,
          accesses = [Rd 64 68, Rd 112 120, Wr 112 8, Rd 120 124, Rd 168 176, Rd 176 180]\<rparr>"
  by (simp add: sample64_def sample64_aligned_def hdr64_def run_defs)

lemma patch_sample64:
  "patch sample64 = Inr (Some \<lparr>data = sample64_aligned, modified = True,
          accesses = [Rd 64 68, Rd 112 120, Wr 112 8, Rd 120 124, Rd 168 176, Rd 176 180]\<rparr>)"
proof -
  have "py_slice sample64 0 4 = magic" by (simp add: sample64_def py_slice_def magic_def)
  then show ?thesis
    using loop_sample64 by (simp add: patch_def read_header_sample64 hdr64_def upt3)
qed

lemma hdr64_simps:
  "phnum hdr64 = 3" "endian hdr64 = LE" "align_fmt hdr64 = Q" "phoff hdr64 = 64"
  "phentsize hdr64 = 56" "is_64bit hdr64"
  by (simp_all add: hdr64_def align_fmt_def phentsize_def)

lemmas field_defs = p_type_def p_align_def align_field_def ph_offset_def align_offset_def
  phentsize_def align_sub_def align_fmt_def py_slice_def decode_def

lemma fields_sample64:
  "p_type hdr64 sample64 0 = 1" "p_align hdr64 sample64 0 = 0x1000"
  "p_type hdr64 sample64 1 = 1" "p_align hdr64 sample64 1 = 0x10000"
  "p_type hdr64 sample64 2 = 2"
  by (simp_all add: field_defs sample64_def hdr64_def)

lemma fields_sample64_aligned:
  "align_field hdr64 sample64_aligned 0 = [0, 0x40, 0, 0, 0, 0, 0, 0]"
  "p_align hdr64 sample64_aligned 0 = 0x4000"
  "p_align hdr64 sample64_aligned 1 = 0x10000"
  by (simp_all add: field_defs sample64_aligned_def hdr64_def)

lemma run_sample_fs:
  "align_elf_to_16kb ''libnative.so'' sample_fs =
     \<lparr>result = Inr Aligned, disk = sample_fs(''libnative.so'' \<mapsto> sample64_aligned),
      opened = [Open_rb ''libnative.so'', Open_wb ''libnative.so'']\<rparr>"
  using run_Some [of sample_fs "''libnative.so''" sample64, OF _ patch_sample64]
  by (simp add: sample_fs_def)

lemma sample64_field_224:
  "p_type hdr64 sample64 i = 1 \<longrightarrow> \<not> in_align_field hdr64 i 224"
proof (intro impI notI)
  assume t: "p_type hdr64 sample64 i = 1" and "in_align_field hdr64 i 224"
  then have "i = 2"
    by (simp add: in_align_field_def align_offset_def ph_offset_def hdr64_simps
        align_sub_def)
  with t fields_sample64(5) show False by simp
qed

lemma well_formed_sample64: "well_formed sample64"
proof -
  have "py_slice sample64 0 4 = magic" by (simp add: sample64_def py_slice_def magic_def)
  moreover have "length sample64 = 232" by (simp add: sample64_def)
  ultimately show ?thesis
    by (simp add: well_formed_def read_header_sample64 hdr64_simps ehsize_def)
qed

lemma sample_fs_path: "sample_fs ''libnative.so'' = Some sample64"
  by (simp add: sample_fs_def)

lemma length_sample64: "length sample64 = 232"
  by (simp add: sample64_def)

lemma loop_sample64_aligned:
  "loop hdr64 [0, 1, 2] \<lparr>data = sample64_aligned, modified = False, accesses = []\<rparr> =
     Inr \<lparr>data = sample64_aligned, modified = False,
          accesses = [Rd 64 68, Rd 112 120, Rd 120 124, Rd 168 176, Rd 176 180]\<rparr>"
  by (simp add: sample64_aligned_def hdr64_def run_defs)

lemma read_header_sample64_aligned: "read_header sample64_aligned = Inr hdr64"
  by (simp add: sample64_aligned_def hdr64_def read_header_def py_index_def unpack_def
      py_slice_def decode_def)

lemma patch_sample64_aligned:
  "patch sample64_aligned = Inr (Some \<lparr>data = sample64_aligned, modified = False,
          accesses = [Rd 64 68, Rd 112 120, Rd 120 124, Rd 168 176, Rd 176 180]\<rparr>)"
proof -
  have "py_slice sample64_aligned 0 4 = magic"
    by (simp add: sample64_aligned_def py_slice_def magic_def)
  then show ?thesis
    using loop_sample64_aligned
    by (simp add: patch_def read_header_sample64_aligned hdr64_simps upt3)
qed

lemma read_header_odd_ident: "read_header odd_ident = Inr hdr_odd"
  by (simp add: odd_ident_def hdr_odd_def read_header_def py_index_def unpack_def
      py_slice_def decode_def)

lemma loop_odd_ident:
  "loop hdr_odd [0] \<lparr>data = odd_ident, modified = False, accesses = []\<rparr> =
     Inr \<lparr>data = odd_ident_aligned, modified = True,
          accesses = [Rd 52 56, Rd 80 84, Wr 80 4]\<rparr>"
  by (simp add: odd_ident_def odd_ident_aligned_def hdr_odd_def run_defs)

lemma magic_odd_ident: "take 4 odd_ident = magic"
  by (simp add: odd_ident_def magic_def)

lemma patch_odd_ident:
  "patch odd_ident = Inr (Some \<lparr>data = odd_ident_aligned, modified = True,
          accesses = [Rd 52 56, Rd 80 84, Wr 80 4]\<rparr>)"
  using loop_odd_ident magic_odd_ident
  by (simp add: patch_def py_slice_def read_header_odd_ident hdr_odd_def)

lemma hdr_odd_simps:
  "phnum hdr_odd = 1" "endian hdr_odd = BE" "align_fmt hdr_odd = I" "phoff hdr_odd = 52"
  "phentsize hdr_odd = 32" "\<not> is_64bit hdr_odd" "align_sub hdr_odd = 0x1c"
  by (simp_all add: hdr_odd_def align_fmt_def phentsize_def align_sub_def)

lemma fields_odd_ident:
  "p_type hdr_odd odd_ident 0 = 1" "p_align hdr_odd odd_ident 0 = 0x1000"
  by (simp_all add: field_defs odd_ident_def hdr_odd_def)

lemma magic_truncated64: "take 4 truncated64 = magic"
  by (simp add: truncated64_def sample64_def magic_def)

lemma length_truncated64: "length truncated64 = 64"
  by (simp add: truncated64_def length_sample64)

lemma read_header_truncated64: "read_header truncated64 = Inr hdr64"
  by (simp add: truncated64_def sample64_def hdr64_def read_header_def py_index_def
      unpack_def py_slice_def decode_def)

lemma patch_truncated64: "patch truncated64 = Inl StructError"
proof -
  have m: "py_slice truncated64 0 4 = magic"
    by (simp add: truncated64_def sample64_def py_slice_def magic_def)
  have "visit hdr64 0 \<lparr>data = truncated64, modified = False, accesses = []\<rparr> = Inl StructError"
    by (simp add: truncated64_def sample64_def hdr64_def visit_def Let_def unpack_def
        py_slice_def phentsize_def)
  then show ?thesis
    by (simp add: patch_def m read_header_truncated64 hdr64_simps upt3)
qed

lemma table_readable_sample64: "table_readable hdr64 sample64"
  by (rule table_in_image_readable) (simp add: hdr64_simps length_sample64)

lemma length_odd_ident: "length odd_ident = 84"
  by (simp add: odd_ident_def)

lemma table_readable_odd_ident: "table_readable hdr_odd odd_ident"
  by (rule table_in_image_readable) (simp add: hdr_odd_simps length_odd_ident)

lemma magic_sample64: "take 4 sample64 = magic"
  by (simp add: sample64_def magic_def)

section \<open>The claims\<close>

text \<open>
  Claim C1. On an image with the right magic number whose header and program header
  fields can be read, the run completes, and in its buffer every program header entry
  of type 1 whose alignment was below 0x4000 has its alignment field overwritten with
  0x4000, packed in the entry's width and the file's byte order; the \<^verbatim>\<open>modified\<close>
  flag is set exactly when there is such an entry. An entry of type 1 whose alignment
  is 0x4000 or more keeps the bytes of its alignment field.
\<close>

theorem loadable_alignment_raised_or_kept:
  assumes "take 4 d = magic" and "read_header d = Inr h" and "table_readable h d"
  shows "\<exists>s. patch d = Inr (Some s) \<and>
           modified s = (\<exists>i<phnum h. below_16k h d i) \<and>
           (\<forall>i<phnum h. p_type h d i = 1 \<longrightarrow>
              (p_align h d i < 0x4000 \<longrightarrow>
                 align_field h (data s) i = encode (endian h) (align_fmt h) 0x4000 \<and>
                 p_align h (data s) i = 0x4000 \<and> modified s) \<and>
              (0x4000 \<le> p_align h d i \<longrightarrow>
                 align_field h (data s) i = align_field h d i))"
proof -
  from assms obtain s where
    l: "loop h [0..<phnum h] \<lparr>data = d, modified = False, accesses = []\<rparr> = Inr s"
    and p: "patch d = Inr (Some s)"
    by (rule patch_completes)
  have m: "modified s = (\<exists>j<phnum h. below_16k h d j)"
    using loop_modified [OF _ l] by auto
  have e: "(p_align h d i < 0x4000 \<longrightarrow>
              align_field h (data s) i = encode (endian h) (align_fmt h) 0x4000 \<and>
              p_align h (data s) i = 0x4000 \<and> modified s) \<and>
           (0x4000 \<le> p_align h d i \<longrightarrow> align_field h (data s) i = align_field h d i)"
    if i: "i < phnum h" and t: "p_type h d i = 1" for i
  proof -
    have af: "align_field h (data s) i =
        (if below_16k h d i then encode (endian h) (align_fmt h) 0x4000 else align_field h d i)"
      using loop_align_field [OF _ l, of i] i by simp
    show ?thesis
    proof (cases "p_align h d i < 0x4000")
      case True
      with t have b: "below_16k h d i" by (simp add: below_16k_def)
      with m i have "modified s" by auto
      with af b True show ?thesis by (simp add: p_align_def decode_encode_0x4000)
    next
      case False
      then have "\<not> below_16k h d i" by (simp add: below_16k_def)
      with af False show ?thesis by simp
    qed
  qed
  from p m e show ?thesis by blast
qed

theorem loadable_alignment_raised_or_kept_witness:
  "take 4 sample64 = magic \<and> read_header sample64 = Inr hdr64 \<and>
   table_readable hdr64 sample64 \<and>
   patch sample64 =
     Inr (Some \<lparr>data = sample64_aligned, modified = True,
                accesses = [Rd 64 68, Rd 112 120, Wr 112 8, Rd 120 124, Rd 168 176, Rd 176 180]\<rparr>) \<and>
   p_type hdr64 sample64 0 = 1 \<and> p_align hdr64 sample64 0 = 0x1000 \<and>
   align_field hdr64 sample64_aligned 0 = encode LE Q 0x4000 \<and>
   p_align hdr64 sample64_aligned 0 = 0x4000 \<and>
   p_type hdr64 sample64 1 = 1 \<and> p_align hdr64 sample64 1 = 0x10000 \<and>
   align_field hdr64 sample64_aligned 1 = align_field hdr64 sample64 1"
proof -
  from loadable_alignment_raised_or_kept [OF magic_sample64 read_header_sample64 table_readable_sample64]
  have k: "\<forall>i<phnum hdr64. p_type hdr64 sample64 i = 1 \<longrightarrow>
      (p_align hdr64 sample64 i < 0x4000 \<longrightarrow>
         align_field hdr64 sample64_aligned i = encode (endian hdr64) (align_fmt hdr64) 0x4000 \<and>
         p_align hdr64 sample64_aligned i = 0x4000) \<and>
      (0x4000 \<le> p_align hdr64 sample64 i \<longrightarrow>
         align_field hdr64 sample64_aligned i = align_field hdr64 sample64 i)"
    by (auto simp: patch_sample64)
  have i0: "(0::nat) < phnum hdr64" and i1: "(1::nat) < phnum hdr64"
    by (simp_all add: hdr64_simps)
  from k [rule_format, OF i0 fields_sample64(1)] fields_sample64(2)
  have 0: "align_field hdr64 sample64_aligned 0 = encode LE Q 0x4000 \<and>
      p_align hdr64 sample64_aligned 0 = 0x4000"
    by (simp add: hdr64_simps)
  from k [rule_format, OF i1 fields_sample64(3)] fields_sample64(4)
  have 1: "align_field hdr64 sample64_aligned 1 = align_field hdr64 sample64 1"
    by simp
  from 0 1 fields_sample64 show ?thesis
    by (simp add: magic_sample64 read_header_sample64 table_readable_sample64 patch_sample64)
qed

text \<open>
  Claim C2. Whenever the operation returns success, the stored image has the length
  it had before, and every byte outside the alignment fields of the loadable entries
  of the program header table is the byte that was there before.
\<close>

theorem bytes_outside_alignment_fields_kept:
  assumes "files path = Some d"
    and "result (align_elf_to_16kb path files) = Inr out" and "returned out"
  shows "\<exists>h d'. read_header d = Inr h \<and>
           disk (align_elf_to_16kb path files) path = Some d' \<and>
           length d' = length d \<and>
           (\<forall>p<length d. (\<forall>i<phnum h. p_type h d i = 1 \<longrightarrow> \<not> in_align_field h i p)
              \<longrightarrow> d' ! p = d ! p)"
proof -
  from assms obtain s where p: "patch d = Inr (Some s)" by (rule run_success)
  then obtain h where h: "read_header d = Inr h"
    and l: "loop h [0..<phnum h] \<lparr>data = d, modified = False, accesses = []\<rparr> = Inr s"
    by (rule patch_SomeD)
  have len: "length (data s) = length d" using loop_length [OF l] by simp
  have fr: "data s ! p = d ! p" if "\<forall>i<phnum h. p_type h d i = 1 \<longrightarrow> \<not> in_align_field h i p" for p
  proof (rule ccontr)
    assume "data s ! p \<noteq> d ! p"
    with loop_frame [OF l, of p] obtain i where "i < phnum h" "p_type h d i = 1"
      "in_align_field h i p" by auto
    with that show False by blast
  qed
  show ?thesis
  proof (cases "modified s")
    case True
    then have "disk (align_elf_to_16kb path files) path = Some (data s)"
      by (simp add: run_Some [of files path, OF assms(1) p])
    with h len fr show ?thesis by auto
  next
    case False
    then have "disk (align_elf_to_16kb path files) path = Some d"
      by (simp add: run_Some [of files path, OF assms(1) p] assms(1))
    with h show ?thesis by auto
  qed
qed

theorem bytes_outside_alignment_fields_kept_witness:
  "sample_fs ''libnative.so'' = Some sample64 \<and>
   result (align_elf_to_16kb ''libnative.so'' sample_fs) = Inr Aligned \<and>
   disk (align_elf_to_16kb ''libnative.so'' sample_fs) ''libnative.so'' = Some sample64_aligned \<and>
   length sample64_aligned = length sample64 \<and>
   sample64_aligned ! 224 = sample64 ! 224"
proof -
  have 1: "sample_fs ''libnative.so'' = Some sample64" by (simp add: sample_fs_def)
  have 2: "result (align_elf_to_16kb ''libnative.so'' sample_fs) = Inr Aligned"
    by (simp add: run_sample_fs)
  have 3: "disk (align_elf_to_16kb ''libnative.so'' sample_fs) ''libnative.so'' =
      Some sample64_aligned"
    by (simp add: run_sample_fs)
  from bytes_outside_alignment_fields_kept [of sample_fs "''libnative.so''" sample64, OF 1 2]
  have k: "length sample64_aligned = length sample64 \<and>
      (\<forall>p<length sample64.
         (\<forall>i<3. p_type hdr64 sample64 i = 1 \<longrightarrow> \<not> in_align_field hdr64 i p) \<longrightarrow>
         sample64_aligned ! p = sample64 ! p)"
    by (simp add: 3 read_header_sample64 hdr64_simps)
  have "(224::nat) < length sample64" by (simp add: sample64_def)
  with k sample64_field_224 have "sample64_aligned ! 224 = sample64 ! 224" by blast
  with 1 2 3 k show ?thesis by simp
qed

text \<open>
  Claim C3. On a well-formed image the operation returns success, the header of the
  stored image is the header it had before, and in the stored image every entry of
  the program header table of type 1 has an alignment of at least 0x4000 that is not
  smaller than its alignment before the run. The type of no entry changes.
\<close>

theorem alignment_at_least_16k_and_monotone:
  assumes "well_formed d" and "files path = Some d"
  shows "\<exists>h d' out.
           result (align_elf_to_16kb path files) = Inr out \<and> returned out \<and>
           disk (align_elf_to_16kb path files) path = Some d' \<and>
           read_header d = Inr h \<and> read_header d' = Inr h \<and>
           (\<forall>i<phnum h. p_type h d' i = p_type h d i \<and>
              (p_type h d' i = 1 \<longrightarrow>
                 0x4000 \<le> p_align h d' i \<and> p_align h d i \<le> p_align h d' i))"
proof -
  from assms(1) obtain h s where h: "read_header d = Inr h" and e: "ehsize h \<le> phoff h"
    and l: "loop h [0..<phnum h] \<lparr>data = d, modified = False, accesses = []\<rparr> = Inr s"
    and p: "patch d = Inr (Some s)"
    by (rule patch_ok)
  note r = run_disk [of files path, OF assms(2) p]
  have 1: "returned (if modified s then Aligned else Already_aligned)" by simp
  have 2: "read_header (data s) = Inr h" by (rule well_formed_loop_header [OF h e l])
  have 3: "p_type h (data s) i = p_type h d i" for i
    using loop_p_type [OF l, of i] by simp
  have 4: "0x4000 \<le> p_align h (data s) i \<and> p_align h d i \<le> p_align h (data s) i"
    if "i < phnum h" "p_type h (data s) i = 1" for i
    using loop_p_align [OF l that(1)] that(2) 3 [of i] by simp
  from r(1,2) 1 h 2 3 4 show ?thesis by blast
qed

theorem alignment_at_least_16k_and_monotone_witness:
  "well_formed sample64 \<and> sample_fs ''libnative.so'' = Some sample64 \<and>
   read_header sample64_aligned = Inr hdr64 \<and>
   p_type hdr64 sample64_aligned 0 = 1 \<and>
   0x4000 \<le> p_align hdr64 sample64_aligned 0 \<and>
   p_align hdr64 sample64 0 \<le> p_align hdr64 sample64_aligned 0"
proof -
  from alignment_at_least_16k_and_monotone [where files = sample_fs and path = "''libnative.so''",
      OF well_formed_sample64 sample_fs_path]
  have k: "read_header sample64_aligned = Inr hdr64 \<and>
      (\<forall>i<3. p_type hdr64 sample64_aligned i = p_type hdr64 sample64 i \<and>
         (p_type hdr64 sample64_aligned i = 1 \<longrightarrow>
            0x4000 \<le> p_align hdr64 sample64_aligned i \<and>
            p_align hdr64 sample64 i \<le> p_align hdr64 sample64_aligned i))"
    by (auto simp: run_sample_fs read_header_sample64 hdr64_simps)
  then have "p_type hdr64 sample64_aligned 0 = 1"
    using fields_sample64(1) by simp
  with k show ?thesis
    using well_formed_sample64 sample_fs_path by simp
qed

text \<open>
  Claim C4. The operation is idempotent on well-formed images: a second run on the
  file that the first run left behind finds no alignment below 0x4000, so its
  \<^verbatim>\<open>modified\<close> flag is false, its buffer is the stored image, it reports that the
  file is already aligned, and the file system is the one the first run left.
\<close>

theorem second_run_is_noop:
  assumes "well_formed d" and "files path = Some d"
  shows "\<exists>d' s. disk (align_elf_to_16kb path files) path = Some d' \<and>
           patch d' = Inr (Some s) \<and> \<not> modified s \<and> data s = d' \<and>
           result (align_elf_to_16kb path (disk (align_elf_to_16kb path files))) =
             Inr Already_aligned \<and>
           disk (align_elf_to_16kb path (disk (align_elf_to_16kb path files))) =
             disk (align_elf_to_16kb path files)"
proof -
  from assms(1) obtain h s1 where h: "read_header d = Inr h" and e: "ehsize h \<le> phoff h"
    and l: "loop h [0..<phnum h] \<lparr>data = d, modified = False, accesses = []\<rparr> = Inr s1"
    and p: "patch d = Inr (Some s1)"
    by (rule patch_ok)
  note r1 = run_disk [of files path, OF assms(2) p]
  have w: "well_formed (data s1)" by (rule well_formed_patched [OF assms(1) p])
  then obtain h' s2 where h': "read_header (data s1) = Inr h'"
    and l2: "loop h' [0..<phnum h'] \<lparr>data = data s1, modified = False, accesses = []\<rparr> = Inr s2"
    and p2: "patch (data s1) = Inr (Some s2)"
    by (rule patch_ok)
  from h' well_formed_loop_header [OF h e l] have [simp]: "h' = h" by simp
  have nb: "\<not> below_16k h (data s1) i" if "i \<in> set [0..<phnum h]" for i
    using loop_table_below [OF l, of i] that by simp
  from loop_unchanged [OF _ l2 [simplified]] nb
  have u: "data s2 = data s1" "\<not> modified s2" by auto
  note r2 = run_disk [of "disk (align_elf_to_16kb path files)" path, OF r1(1) p2]
  from r2(3) r1(3) u have "disk (align_elf_to_16kb path (disk (align_elf_to_16kb path files))) =
             disk (align_elf_to_16kb path files)" by simp
  with r1(1) p2 u r2(2) show ?thesis by auto
qed

theorem second_run_is_noop_witness:
  "well_formed sample64 \<and> sample_fs ''libnative.so'' = Some sample64 \<and>
   disk (align_elf_to_16kb ''libnative.so'' sample_fs) ''libnative.so'' = Some sample64_aligned \<and>
   (\<exists>s. patch sample64_aligned = Inr (Some s) \<and> \<not> modified s \<and> data s = sample64_aligned) \<and>
   result (align_elf_to_16kb ''libnative.so'' (disk (align_elf_to_16kb ''libnative.so'' sample_fs)))
     = Inr Already_aligned \<and>
   disk (align_elf_to_16kb ''libnative.so'' (disk (align_elf_to_16kb ''libnative.so'' sample_fs)))
     = disk (align_elf_to_16kb ''libnative.so'' sample_fs)"
proof -
  have 3: "disk (align_elf_to_16kb ''libnative.so'' sample_fs) ''libnative.so'' =
      Some sample64_aligned"
    by (simp add: run_sample_fs)
  from second_run_is_noop [where files = sample_fs and path = "''libnative.so''",
      OF well_formed_sample64 sample_fs_path] 3
  show ?thesis
    using well_formed_sample64 sample_fs_path by auto
qed

text \<open>
  Claim C5. For an existing file the early return at the magic check is taken if and
  only if the first four bytes are not 0x7F 'E' 'L' 'F'. In that case the function
  returns \<^verbatim>\<open>False\<close>, the file has been opened for reading only and the file system
  is unchanged.
\<close>

theorem not_elf_iff_magic_mismatch:
  assumes "files path = Some d"
  shows "(patch d = Inr None \<longleftrightarrow> take 4 d \<noteq> magic) \<and>
         (result (align_elf_to_16kb path files) = Inr Not_an_ELF \<longleftrightarrow> take 4 d \<noteq> magic) \<and>
         (take 4 d \<noteq> magic \<longrightarrow>
            \<not> returned Not_an_ELF \<and>
            opened (align_elf_to_16kb path files) = [Open_rb path] \<and>
            disk (align_elf_to_16kb path files) = files)"
proof -
  have s: "py_slice d 0 4 = take 4 d" by (simp add: py_slice_def)
  have 1: "patch d = Inr None \<longleftrightarrow> take 4 d \<noteq> magic"
    by (auto simp: patch_def s split: sum.splits)
  have 2: "result (align_elf_to_16kb path files) = Inr Not_an_ELF \<longleftrightarrow> patch d = Inr None"
    using assms by (auto simp: align_elf_to_16kb_def split: sum.splits option.splits)
  have 3: "opened (align_elf_to_16kb path files) = [Open_rb path] \<and>
      disk (align_elf_to_16kb path files) = files" if "patch d = Inr None"
    using assms that by (simp add: align_elf_to_16kb_def)
  from 1 2 3 show ?thesis by simp
qed

theorem not_elf_iff_magic_mismatch_witness:
  "[''notes.zip'' \<mapsto> zip_bytes] ''notes.zip'' = Some zip_bytes \<and>
   take 4 zip_bytes \<noteq> magic \<and>
   result (align_elf_to_16kb ''notes.zip'' [''notes.zip'' \<mapsto> zip_bytes]) = Inr Not_an_ELF \<and>
   opened (align_elf_to_16kb ''notes.zip'' [''notes.zip'' \<mapsto> zip_bytes]) = [Open_rb ''notes.zip''] \<and>
   disk (align_elf_to_16kb ''notes.zip'' [''notes.zip'' \<mapsto> zip_bytes]) = [''notes.zip'' \<mapsto> zip_bytes] \<and>
   sample_fs ''libnative.so'' = Some sample64 \<and> take 4 sample64 = magic \<and>
   result (align_elf_to_16kb ''libnative.so'' sample_fs) \<noteq> Inr Not_an_ELF"
proof -
  have 1: "[''notes.zip'' \<mapsto> zip_bytes] ''notes.zip'' = Some zip_bytes" by simp
  have 2: "take 4 zip_bytes \<noteq> magic" by (simp add: zip_bytes_def magic_def)
  have 3: "take 4 sample64 = magic" by (simp add: sample64_def magic_def)
  from not_elf_iff_magic_mismatch [where files = "[''notes.zip'' \<mapsto> zip_bytes]"
      and path = "''notes.zip''", OF 1]
    not_elf_iff_magic_mismatch [where files = sample_fs and path = "''libnative.so''",
      OF sample_fs_path]
    2 3 sample_fs_path
  show ?thesis by simp
qed

text \<open>
  Claim C6. When the image is long enough for the header fields, the header is read
  without error: the class is 64-bit exactly when byte 4 is 2, the byte order is
  little-endian exactly when byte 5 is 1, the table offset is the integer of the 8
  bytes at 0x20 (64-bit) or of the 4 bytes at 0x1C (32-bit), the entry count is the
  integer of the 2 bytes at 0x38 or at 0x2C, both in that byte order, and the entry
  size is the constant 56 or 32, whatever the file says.
\<close>

theorem header_fields_read_at_fixed_offsets:
  assumes "(if d ! 4 = 2 then 0x3a else 0x2e) \<le> length d"
  shows "\<exists>h. read_header d = Inr h \<and>
           is_64bit h = (d ! 4 = 2) \<and>
           endian h = (if d ! 5 = 1 then LE else BE) \<and>
           phoff h = (if d ! 4 = 2 then field_value (endian h) d 0x20 8
                      else field_value (endian h) d 0x1c 4) \<and>
           phnum h = (if d ! 4 = 2 then field_value (endian h) d 0x38 2
                      else field_value (endian h) d 0x2c 2) \<and>
           phentsize h = (if d ! 4 = 2 then 56 else 32)"
proof (cases "d ! 4 = 2")
  case True
  with assms have len: "0x3a \<le> length d" by simp
  have f: "decode e (py_slice d 0x20 0x28) = field_value e d 0x20 8"
    "decode e (py_slice d 0x38 0x3a) = field_value e d 0x38 2" for e
    using decode_field_value [of "0x20" 8 d e] decode_field_value [of "0x38" 2 d e] len
    by simp_all
  have l: "length (py_slice d 0x20 0x28) = 8" "length (py_slice d 0x38 0x3a) = 2"
    using len by (simp_all add: py_slice_def)
  from len True show ?thesis
    by (simp add: read_header_def py_index_def unpack_def l f phentsize_def Let_def)
next
  case False
  with assms have len: "0x2e \<le> length d" by simp
  have f: "decode e (py_slice d 0x1c 0x20) = field_value e d 0x1c 4"
    "decode e (py_slice d 0x2c 0x2e) = field_value e d 0x2c 2" for e
    using decode_field_value [of "0x1c" 4 d e] decode_field_value [of "0x2c" 2 d e] len
    by simp_all
  have l: "length (py_slice d 0x1c 0x20) = 4" "length (py_slice d 0x2c 0x2e) = 2"
    using len by (simp_all add: py_slice_def)
  from len False show ?thesis
    by (simp add: read_header_def py_index_def unpack_def l f phentsize_def Let_def)
qed

theorem header_fields_read_at_fixed_offsets_witness:
  "(if sample64 ! 4 = 2 then 0x3a else 0x2e) \<le> length sample64 \<and>
   read_header sample64 = Inr hdr64 \<and>
   field_value LE sample64 0x20 8 = 64 \<and>
   field_value LE sample64 0x38 2 = 3 \<and>
   phentsize hdr64 = 56"
proof -
  have c: "sample64 ! 4 = 2" and e: "sample64 ! 5 = 1" by (simp_all add: sample64_def)
  have 1: "(if sample64 ! 4 = 2 then 0x3a else 0x2e) \<le> length sample64"
    by (simp add: c length_sample64)
  from header_fields_read_at_fixed_offsets [OF 1]
  have "phoff hdr64 = field_value LE sample64 0x20 8 \<and>
        phnum hdr64 = field_value LE sample64 0x38 2 \<and> phentsize hdr64 = 56"
    by (auto simp: read_header_sample64 c e)
  with 1 show ?thesis by (simp add: read_header_sample64 hdr64_simps)
qed

text \<open>
  Claim C7. On an image with the right magic number whose header and program header
  fields can be read, the run completes, and its accesses to the image are those of
  entries 0, 1, ... up to the entry count, in this order, each entry at table offset
  plus index times entry size. For an entry whose type is not 1 the only access is
  the read of its type field, and no access of the whole run covers a position of its
  alignment field.
\<close>

theorem entries_visited_in_table_order:
  assumes "take 4 d = magic" and "read_header d = Inr h" and "table_readable h d"
  shows "\<exists>s. patch d = Inr (Some s) \<and>
           accesses s = concat (map (entry_accesses h d) [0..<phnum h]) \<and>
           (\<forall>i<phnum h. p_type h d i \<noteq> 1 \<longrightarrow>
              entry_accesses h d i =
                [Rd (phoff h + i * phentsize h) (phoff h + i * phentsize h + 4)] \<and>
              (\<forall>a\<in>set (accesses s). \<forall>p. in_align_field h i p \<longrightarrow> \<not> touches a p))"
proof -
  from assms obtain s where
    l: "loop h [0..<phnum h] \<lparr>data = d, modified = False, accesses = []\<rparr> = Inr s"
    and p: "patch d = Inr (Some s)"
    by (rule patch_completes)
  have acc: "accesses s = concat (map (entry_accesses h d) [0..<phnum h])"
    using loop_accesses [OF _ l] by simp
  have skip: "\<not> touches a p"
    if "p_type h d i \<noteq> 1" "a \<in> set (accesses s)" "in_align_field h i p" for i a p
  proof
    assume t: "touches a p"
    from that(2) acc obtain j where "a \<in> set (entry_accesses h d j)" by auto
    from entry_accesses_touch [OF this t] show False
    proof
      assume "ph_offset h j \<le> p \<and> p < ph_offset h j + 4"
      with type_field_disjoint [OF that(3), of j] show False by simp
    next
      assume j: "p_type h d j = 1 \<and> in_align_field h j p"
      with that(1) have "i \<noteq> j" by auto
      from align_field_disjoint [OF this that(3)] j show False by simp
    qed
  qed
  have one: "entry_accesses h d i =
      [Rd (phoff h + i * phentsize h) (phoff h + i * phentsize h + 4)]"
    if "p_type h d i \<noteq> 1" for i
    using that by (simp add: entry_accesses_def ph_offset_def)
  from p acc skip one show ?thesis by blast
qed

theorem entries_visited_in_table_order_witness:
  "take 4 sample64 = magic \<and> read_header sample64 = Inr hdr64 \<and>
   table_readable hdr64 sample64 \<and>
   patch sample64 =
     Inr (Some \<lparr>data = sample64_aligned, modified = True,
                accesses = [Rd 64 68, Rd 112 120, Wr 112 8, Rd 120 124, Rd 168 176, Rd 176 180]\<rparr>) \<and>
   concat (map (entry_accesses hdr64 sample64) [0..<3]) =
     [Rd 64 68, Rd 112 120, Wr 112 8, Rd 120 124, Rd 168 176, Rd 176 180] \<and>
   p_type hdr64 sample64 2 \<noteq> 1 \<and>
   entry_accesses hdr64 sample64 2 = [Rd 176 180] \<and>
   in_align_field hdr64 2 224 \<and> \<not> touches (Rd 168 176) 224 \<and> \<not> touches (Rd 176 180) 224"
proof -
  let ?log = "[Rd 64 68, Rd 112 120, Wr 112 8, Rd 120 124, Rd 168 176, Rd 176 180]"
  from entries_visited_in_table_order [OF magic_sample64 read_header_sample64 table_readable_sample64]
  obtain s where ps: "patch sample64 = Inr (Some s)"
    and acc: "accesses s = concat (map (entry_accesses hdr64 sample64) [0..<phnum hdr64])"
    and sk: "\<forall>i<phnum hdr64. p_type hdr64 sample64 i \<noteq> 1 \<longrightarrow>
         entry_accesses hdr64 sample64 i =
           [Rd (phoff hdr64 + i * phentsize hdr64) (phoff hdr64 + i * phentsize hdr64 + 4)] \<and>
         (\<forall>a\<in>set (accesses s). \<forall>p. in_align_field hdr64 i p \<longrightarrow> \<not> touches a p)"
    by blast
  from ps have log: "accesses s = ?log" by (auto simp: patch_sample64)
  have f: "in_align_field hdr64 2 224"
    by (simp add: in_align_field_def align_offset_def ph_offset_def hdr64_simps align_sub_def)
  have m: "Rd 176 180 \<in> set (accesses s)" "Rd 168 176 \<in> set (accesses s)"
    by (simp_all add: log)
  from acc log have 1: "concat (map (entry_accesses hdr64 sample64) [0..<3]) = ?log"
    by (simp add: hdr64_simps)
  have i2: "(2::nat) < phnum hdr64" by (simp add: hdr64_simps)
  have ne: "p_type hdr64 sample64 2 \<noteq> 1" using fields_sample64(5) by simp
  note c = sk [rule_format, OF i2 ne]
  from c have 2: "entry_accesses hdr64 sample64 2 = [Rd 176 180]"
    by (simp add: hdr64_simps)
  from c [THEN conjunct2, rule_format, of "Rd 176 180" 224] f m
  have 3: "\<not> touches (Rd 176 180) 224"
    by (simp del: touches.simps)
  from c [THEN conjunct2, rule_format, of "Rd 168 176" 224] f m
  have 4: "\<not> touches (Rd 168 176) 224"
    by (simp del: touches.simps)
  from 1 2 3 4 f ne show ?thesis
    by (simp add: magic_sample64 read_header_sample64 table_readable_sample64 patch_sample64
        del: touches.simps)
qed

text \<open>
  Claim C8. After the loop has completed, the file is opened for writing if and only
  if the \<^verbatim>\<open>modified\<close> flag is set: then the buffer replaces the stored bytes, otherwise
  the file system is unchanged. The function returns \<^verbatim>\<open>True\<close> in both cases.
\<close>

theorem written_back_iff_modified:
  assumes "files path = Some d" and "patch d = Inr (Some s)"
  shows "(Open_wb path \<in> set (opened (align_elf_to_16kb path files)) \<longleftrightarrow> modified s) \<and>
         (modified s \<longrightarrow>
            disk (align_elf_to_16kb path files) = files(path \<mapsto> data s) \<and>
            result (align_elf_to_16kb path files) = Inr Aligned) \<and>
         (\<not> modified s \<longrightarrow>
            disk (align_elf_to_16kb path files) = files \<and>
            result (align_elf_to_16kb path files) = Inr Already_aligned) \<and>
         (\<exists>out. result (align_elf_to_16kb path files) = Inr out \<and> returned out)"
  by (simp add: run_Some [of files path, OF assms])

theorem written_back_iff_modified_witness:
  "sample_fs ''libnative.so'' = Some sample64 \<and>
   Open_wb ''libnative.so'' \<in> set (opened (align_elf_to_16kb ''libnative.so'' sample_fs)) \<and>
   disk (align_elf_to_16kb ''libnative.so'' sample_fs) =
     sample_fs(''libnative.so'' \<mapsto> sample64_aligned) \<and>
   result (align_elf_to_16kb ''libnative.so'' sample_fs) = Inr Aligned \<and>
   [''libnative.so'' \<mapsto> sample64_aligned] ''libnative.so'' = Some sample64_aligned \<and>
   Open_wb ''libnative.so'' \<notin>
     set (opened (align_elf_to_16kb ''libnative.so'' [''libnative.so'' \<mapsto> sample64_aligned])) \<and>
   disk (align_elf_to_16kb ''libnative.so'' [''libnative.so'' \<mapsto> sample64_aligned]) =
     [''libnative.so'' \<mapsto> sample64_aligned] \<and>
   result (align_elf_to_16kb ''libnative.so'' [''libnative.so'' \<mapsto> sample64_aligned]) =
     Inr Already_aligned"
proof -
  have 1: "[''libnative.so'' \<mapsto> sample64_aligned] ''libnative.so'' = Some sample64_aligned"
    by simp
  from written_back_iff_modified [where files = sample_fs and path = "''libnative.so''",
      OF sample_fs_path patch_sample64]
    written_back_iff_modified [where files = "[''libnative.so'' \<mapsto> sample64_aligned]"
      and path = "''libnative.so''", OF 1 patch_sample64_aligned]
    sample_fs_path
  show ?thesis by simp
qed

text \<open>
  Claim C9. The class and byte-order bytes are not validated. With the right magic
  number the format error is never returned. When the image is long enough for the
  header fields, the header is read: a class byte other than 2 selects the 32-bit
  layout (fields at 0x1C and 0x2C, entries of 32 bytes, a 4-byte alignment field at
  0x1C), and a byte-order byte other than 1 selects big-endian. When moreover the
  program header fields can be read, the run completes with that layout and byte
  order: its accesses are the per-entry accesses of that header, and every loadable
  entry below 0x4000 has 0x4000 written to its alignment field in that width and
  order; with both bytes off their defined values these are the bytes 00 00 40 00 at
  offset 0x1C of the 32-byte entry.
\<close>

theorem ident_bytes_not_validated:
  assumes "take 4 d = magic"
  shows "patch d \<noteq> Inr None \<and>
         ((if d ! 4 = 2 then 0x3a else 0x2e) \<le> length d \<longrightarrow>
            (\<exists>h. read_header d = Inr h \<and>
               (d ! 4 \<noteq> 2 \<longrightarrow>
                  \<not> is_64bit h \<and> phentsize h = 32 \<and> align_sub h = 0x1c \<and>
                  align_fmt h = I \<and>
                  phoff h = field_value (endian h) d 0x1c 4 \<and>
                  phnum h = field_value (endian h) d 0x2c 2) \<and>
               (d ! 5 \<noteq> 1 \<longrightarrow> endian h = BE) \<and>
               (table_readable h d \<longrightarrow>
                  (\<exists>s. patch d = Inr (Some s) \<and>
                     accesses s = concat (map (entry_accesses h d) [0..<phnum h]) \<and>
                     (\<forall>i<phnum h. below_16k h d i \<longrightarrow>
                        align_field h (data s) i =
                          encode (endian h) (align_fmt h) 0x4000) \<and>
                     (d ! 4 \<noteq> 2 \<and> d ! 5 \<noteq> 1 \<longrightarrow>
                        (\<forall>i<phnum h. below_16k h d i \<longrightarrow>
                           py_slice (data s) (phoff h + i * 32 + 0x1c)
                             (phoff h + i * 32 + 0x20) = [0, 0, 0x40, 0]))))))"
proof -
  have 1: "patch d \<noteq> Inr None"
    using assms by (auto simp: patch_def py_slice_def split: sum.splits)
  have 2: "\<exists>h. read_header d = Inr h \<and>
               (d ! 4 \<noteq> 2 \<longrightarrow>
                  \<not> is_64bit h \<and> phentsize h = 32 \<and> align_sub h = 0x1c \<and>
                  align_fmt h = I \<and>
                  phoff h = field_value (endian h) d 0x1c 4 \<and>
                  phnum h = field_value (endian h) d 0x2c 2) \<and>
               (d ! 5 \<noteq> 1 \<longrightarrow> endian h = BE) \<and>
               (table_readable h d \<longrightarrow>
                  (\<exists>s. patch d = Inr (Some s) \<and>
                     accesses s = concat (map (entry_accesses h d) [0..<phnum h]) \<and>
                     (\<forall>i<phnum h. below_16k h d i \<longrightarrow>
                        align_field h (data s) i =
                          encode (endian h) (align_fmt h) 0x4000) \<and>
                     (d ! 4 \<noteq> 2 \<and> d ! 5 \<noteq> 1 \<longrightarrow>
                        (\<forall>i<phnum h. below_16k h d i \<longrightarrow>
                           py_slice (data s) (phoff h + i * 32 + 0x1c)
                             (phoff h + i * 32 + 0x20) = [0, 0, 0x40, 0]))))"
    if len: "(if d ! 4 = 2 then 0x3a else 0x2e) \<le> length d"
  proof -
    from read_header_total [OF len] obtain h where h: "read_header d = Inr h" ..
    have a: "\<not> is_64bit h \<and> phentsize h = 32 \<and> align_sub h = 0x1c \<and> align_fmt h = I \<and>
        phoff h = field_value (endian h) d 0x1c 4 \<and> phnum h = field_value (endian h) d 0x2c 2"
      if c: "d ! 4 \<noteq> 2"
    proof -
      from c have l: "0x2e \<le> length d" by (rule read_header_InrD(4) [OF h])
      have "decode (endian h) (py_slice d 0x1c 0x20) = field_value (endian h) d 0x1c 4"
        "decode (endian h) (py_slice d 0x2c 0x2e) = field_value (endian h) d 0x2c 2"
        using decode_field_value [of "0x1c" 4 d] decode_field_value [of "0x2c" 2 d] l
        by simp_all
      with read_header_InrD(6) [OF h c] read_header_InrD(2) [OF h] c
      show ?thesis
        by (simp add: phentsize_def align_sub_def align_fmt_def)
    qed
    have b: "endian h = BE" if "d ! 5 \<noteq> 1"
      using that read_header_InrD(3) [OF h] by simp
    have r: "\<exists>s. patch d = Inr (Some s) \<and>
          accesses s = concat (map (entry_accesses h d) [0..<phnum h]) \<and>
          (\<forall>i<phnum h. below_16k h d i \<longrightarrow>
             align_field h (data s) i = encode (endian h) (align_fmt h) 0x4000) \<and>
          (d ! 4 \<noteq> 2 \<and> d ! 5 \<noteq> 1 \<longrightarrow>
             (\<forall>i<phnum h. below_16k h d i \<longrightarrow>
                py_slice (data s) (phoff h + i * 32 + 0x1c)
                  (phoff h + i * 32 + 0x20) = [0, 0, 0x40, 0]))"
      if tr: "table_readable h d"
    proof -
      from assms h tr obtain s where
        l: "loop h [0..<phnum h] \<lparr>data = d, modified = False, accesses = []\<rparr> = Inr s"
        and p: "patch d = Inr (Some s)"
        by (rule patch_completes)
      have acc: "accesses s = concat (map (entry_accesses h d) [0..<phnum h])"
        using loop_accesses [OF _ l] by simp
      have w: "align_field h (data s) i = encode (endian h) (align_fmt h) 0x4000"
        if "i < phnum h" "below_16k h d i" for i
        using loop_align_field [OF _ l, of i] that by simp
      have w32: "py_slice (data s) (phoff h + i * 32 + 0x1c) (phoff h + i * 32 + 0x20) =
          [0, 0, 0x40, 0]"
        if "d ! 4 \<noteq> 2" "d ! 5 \<noteq> 1" "i < phnum h" "below_16k h d i" for i
      proof -
        from a [OF that(1)] have l32: "phentsize h = 32" "align_sub h = 0x1c" "align_fmt h = I"
          by simp_all
        have o: "align_offset h i = phoff h + i * 32 + 0x1c"
          "align_offset h i + calcsize (align_fmt h) = phoff h + i * 32 + 0x20"
          by (simp_all add: align_offset_def ph_offset_def l32)
        have "align_field h (data s) i =
            py_slice (data s) (phoff h + i * 32 + 0x1c) (phoff h + i * 32 + 0x20)"
          using o by (simp add: align_field_def add.commute)
        moreover have "encode (endian h) (align_fmt h) 0x4000 = [0, 0, 0x40, 0]"
          by (simp add: l32 b [OF that(2)] encode_0x4000)
        ultimately have "align_field h (data s) i =
            py_slice (data s) (phoff h + i * 32 + 0x1c) (phoff h + i * 32 + 0x20)"
          "encode (endian h) (align_fmt h) 0x4000 = [0, 0, 0x40, 0]"
          by blast+
        with w [OF that(3,4)] show ?thesis by simp
      qed
      from p acc w w32 show ?thesis by blast
    qed
    from h a b r show ?thesis by blast
  qed
  from 1 2 show ?thesis by blast
qed

theorem ident_bytes_not_validated_witness:
  "take 4 odd_ident = magic \<and> odd_ident ! 4 = 7 \<and> odd_ident ! 5 = 9 \<and>
   (if odd_ident ! 4 = 2 then 0x3a else 0x2e) \<le> length odd_ident \<and>
   read_header odd_ident = Inr hdr_odd \<and> table_readable hdr_odd odd_ident \<and>
   patch odd_ident =
     Inr (Some \<lparr>data = odd_ident_aligned, modified = True,
                accesses = [Rd 52 56, Rd 80 84, Wr 80 4]\<rparr>) \<and>
   phentsize hdr_odd = 32 \<and> endian hdr_odd = BE \<and>
   field_value BE odd_ident 0x1c 4 = 52 \<and> field_value BE odd_ident 0x2c 2 = 1 \<and>
   concat (map (entry_accesses hdr_odd odd_ident) [0..<1]) = [Rd 52 56, Rd 80 84, Wr 80 4] \<and>
   below_16k hdr_odd odd_ident 0 \<and>
   py_slice odd_ident_aligned 80 84 = [0, 0, 0x40, 0]"
proof -
  have c: "odd_ident ! 4 = 7" "odd_ident ! 5 = 9" by (simp_all add: odd_ident_def)
  have len: "(if odd_ident ! 4 = 2 then 0x3a else 0x2e) \<le> length odd_ident"
    by (simp add: c length_odd_ident)
  have b: "below_16k hdr_odd odd_ident 0" by (simp add: below_16k_def fields_odd_ident)
  have i0: "0 < phnum hdr_odd" by (simp add: hdr_odd_simps)
  from ident_bytes_not_validated [OF magic_odd_ident, THEN conjunct2, rule_format, OF len]
  obtain h where h: "read_header odd_ident = Inr h"
    and a: "odd_ident ! 4 \<noteq> 2 \<longrightarrow>
        \<not> is_64bit h \<and> phentsize h = 32 \<and> align_sub h = 0x1c \<and> align_fmt h = I \<and>
        phoff h = field_value (endian h) odd_ident 0x1c 4 \<and>
        phnum h = field_value (endian h) odd_ident 0x2c 2"
    and e: "odd_ident ! 5 \<noteq> 1 \<longrightarrow> endian h = BE"
    and r: "table_readable h odd_ident \<longrightarrow>
        (\<exists>s. patch odd_ident = Inr (Some s) \<and>
           accesses s = concat (map (entry_accesses h odd_ident) [0..<phnum h]) \<and>
           (\<forall>i<phnum h. below_16k h odd_ident i \<longrightarrow>
              align_field h (data s) i = encode (endian h) (align_fmt h) 0x4000) \<and>
           (odd_ident ! 4 \<noteq> 2 \<and> odd_ident ! 5 \<noteq> 1 \<longrightarrow>
              (\<forall>i<phnum h. below_16k h odd_ident i \<longrightarrow>
                 py_slice (data s) (phoff h + i * 32 + 0x1c)
                   (phoff h + i * 32 + 0x20) = [0, 0, 0x40, 0])))"
    by blast
  from h have hh: "h = hdr_odd" by (simp add: read_header_odd_ident)
  from a c have 1: "field_value BE odd_ident 0x1c 4 = 52 \<and> field_value BE odd_ident 0x2c 2 = 1"
    by (simp add: hh hdr_odd_simps)
  from r [rule_format] table_readable_odd_ident
  obtain s where ps: "patch odd_ident = Inr (Some s)"
    and acc: "accesses s = concat (map (entry_accesses hdr_odd odd_ident) [0..<phnum hdr_odd])"
    and w: "odd_ident ! 4 \<noteq> 2 \<and> odd_ident ! 5 \<noteq> 1 \<longrightarrow>
        (\<forall>i<phnum hdr_odd. below_16k hdr_odd odd_ident i \<longrightarrow>
           py_slice (data s) (phoff hdr_odd + i * 32 + 0x1c)
             (phoff hdr_odd + i * 32 + 0x20) = [0, 0, 0x40, 0])"
    unfolding hh by blast
  from ps have s: "data s = odd_ident_aligned" "accesses s = [Rd 52 56, Rd 80 84, Wr 80 4]"
    by (auto simp: patch_odd_ident)
  from acc s have 2: "concat (map (entry_accesses hdr_odd odd_ident) [0..<1]) =
      [Rd 52 56, Rd 80 84, Wr 80 4]"
    by (simp add: hdr_odd_simps)
  from c have "odd_ident ! 4 \<noteq> 2 \<and> odd_ident ! 5 \<noteq> 1" by simp
  from w [rule_format, OF this i0 b] s
  have 3: "py_slice odd_ident_aligned 80 84 = [0, 0, 0x40, 0]"
    by (simp add: hdr_odd_simps)
  from 1 2 3 b c len show ?thesis
    by (simp add: magic_odd_ident read_header_odd_ident table_readable_odd_ident
        patch_odd_ident hdr_odd_simps)
qed

text \<open>
  Claim C10. There is an image with the right magic number whose header declares a
  program header table that extends past the end of the image, on which reading a
  program header field raises \<^verbatim>\<open>struct.error\<close>: the operation does not return, the
  file system is unchanged and the file is not opened for writing.
\<close>

theorem truncated_table_raises_unhandled:
  "\<exists>d h files path.
     files path = Some d \<and> take 4 d = magic \<and> read_header d = Inr h \<and>
     length d < phoff h + phnum h * phentsize h \<and>
     patch d = Inl StructError \<and>
     result (align_elf_to_16kb path files) = Inl StructError \<and>
     disk (align_elf_to_16kb path files) = files \<and>
     Open_wb path \<notin> set (opened (align_elf_to_16kb path files))"
proof -
  let ?fs = "[''libnative.so'' \<mapsto> truncated64]"
  have run: "align_elf_to_16kb ''libnative.so'' ?fs =
      \<lparr>result = Inl StructError, disk = ?fs, opened = [Open_rb ''libnative.so'']\<rparr>"
    by (simp add: align_elf_to_16kb_def patch_truncated64)
  have "?fs ''libnative.so'' = Some truncated64 \<and> take 4 truncated64 = magic \<and>
     read_header truncated64 = Inr hdr64 \<and>
     length truncated64 < phoff hdr64 + phnum hdr64 * phentsize hdr64 \<and>
     patch truncated64 = Inl StructError \<and>
     result (align_elf_to_16kb ''libnative.so'' ?fs) = Inl StructError \<and>
     disk (align_elf_to_16kb ''libnative.so'' ?fs) = ?fs \<and>
     Open_wb ''libnative.so'' \<notin> set (opened (align_elf_to_16kb ''libnative.so'' ?fs))"
    unfolding run
    by (simp add: read_header_truncated64 patch_truncated64 hdr64_simps magic_truncated64
        length_truncated64)
  then show ?thesis
    by (intro exI [of _ truncated64] exI [of _ hdr64] exI [of _ ?fs]
        exI [of _ "''libnative.so''"])
qed

end
